theory Spec2Isabelle
  imports Complex_Main "HOL-Library.Word" "HOL-Library.Monad_Syntax"
begin

section \<open>The tree-ensemble inference engine of emlearn (\<open>eml_trees.h\<close>)\<close>

text \<open>
  The C source is embedded function by function. Conventions of the embedding:
  \<^item> the fixed-width integers of C are words (\<open>int8_t\<close> is \<open>8 word\<close>, read with \<open>sint\<close>;
    \<open>uint8_t\<close> is \<open>8 word\<close>, read with \<open>uint\<close>);
  \<^item> an array behind a pointer is a list holding the elements that are really allocated;
    a null pointer is \<open>None\<close>;
  \<^item> every function returns an \<open>option\<close>: \<open>None\<close> stands for "no defined result", that is
    undefined behaviour of C (a read or write outside an array, a null dereference, signed
    overflow) or a traversal that never leaves its loop;
  \<^item> \<open>float\<close> and \<open>double\<close> are IEEE-754 binary32 and binary64 with round-to-nearest-even,
    each operation rounded to its own format.
\<close>

subsection \<open>IEEE-754 values\<close>

text \<open>
  A floating-point datum is a NaN, an infinity with its sign, or a finite number given by its
  sign (\<open>True\<close> is negative) and its magnitude, so that the two zeros are distinct.
\<close>

datatype ieee = NaN | Infinity bool | Finite bool rat

type_synonym float = ieee
type_synonym double = ieee

text \<open>
  A binary format: the number of significand bits, the exponent of the smallest subnormal,
  and the exponent of the first power of two that is no longer finite.
\<close>

datatype format = Format (precision: nat) (ulp_min: int) (exp_max: int)

definition binary32 :: format where
  "binary32 = Format 24 (- 149) 128"

definition binary64 :: format where
  "binary64 = Format 53 (- 1074) 1024"

function bitlen :: "int \<Rightarrow> int" where
  "bitlen n = (if 0 < n then bitlen (n div 2) + 1 else 0)"
  by pat_completeness auto
termination
  by (relation "measure nat") auto

declare bitlen.simps [simp del]

text \<open>The integer part of the binary logarithm of a positive rational.\<close>

definition ilog2 :: "rat \<Rightarrow> int" where
  "ilog2 m = (let (n, d) = quotient_of m;
                  e0 = bitlen n - bitlen d
              in if m < 2 powi e0 then e0 - 1 else e0)"

definition round_half_even :: "rat \<Rightarrow> int" where
  "round_half_even x = (let f = \<lfloor>x\<rfloor>; d = x - of_int f in
     if d < 1 / 2 then f else if 1 / 2 < d then f + 1 else if even f then f else f + 1)"

text \<open>
  Rounding of a magnitude to the nearest multiple of the unit in the last place of its binade
  (of the subnormal unit, below the normal range), ties to the even significand.
\<close>

definition round_mag :: "format \<Rightarrow> rat \<Rightarrow> rat" where
  "round_mag fmt m =
     (if m = 0 then 0
      else let e = max (ilog2 m - (int (precision fmt) - 1)) (ulp_min fmt)
           in of_int (round_half_even (m / 2 powi e)) * 2 powi e)"

definition fp_round :: "format \<Rightarrow> bool \<Rightarrow> rat \<Rightarrow> ieee" where
  "fp_round fmt s m =
     (let r = round_mag fmt m in if 2 powi (exp_max fmt) \<le> r then Infinity s else Finite s r)"

fun fval :: "ieee \<Rightarrow> rat" where
  "fval (Finite s m) = (if s then - m else m)"
| "fval (Infinity s) = 0"
| "fval NaN = 0"

fun is_nan :: "ieee \<Rightarrow> bool" where
  "is_nan NaN = True"
| "is_nan (Infinity s) = False"
| "is_nan (Finite s m) = False"

definition fp_of_rat :: "format \<Rightarrow> rat \<Rightarrow> ieee" where
  "fp_of_rat fmt q = fp_round fmt (q < 0) \<bar>q\<bar>"

fun fp_add :: "format \<Rightarrow> ieee \<Rightarrow> ieee \<Rightarrow> ieee" where
  "fp_add fmt NaN b = NaN"
| "fp_add fmt (Infinity s) NaN = NaN"
| "fp_add fmt (Finite s m) NaN = NaN"
| "fp_add fmt (Infinity s) (Infinity t) = (if s = t then Infinity s else NaN)"
| "fp_add fmt (Infinity s) (Finite t n) = Infinity s"
| "fp_add fmt (Finite s m) (Infinity t) = Infinity t"
| "fp_add fmt (Finite s m) (Finite t n) =
     (let q = fval (Finite s m) + fval (Finite t n)
      in if q = 0 then Finite (s \<and> t) 0 else fp_of_rat fmt q)"

fun fp_div :: "format \<Rightarrow> ieee \<Rightarrow> ieee \<Rightarrow> ieee" where
  "fp_div fmt NaN b = NaN"
| "fp_div fmt (Infinity s) NaN = NaN"
| "fp_div fmt (Finite s m) NaN = NaN"
| "fp_div fmt (Infinity s) (Infinity t) = NaN"
| "fp_div fmt (Infinity s) (Finite t n) = Infinity (s \<noteq> t)"
| "fp_div fmt (Finite s m) (Infinity t) = Finite (s \<noteq> t) 0"
| "fp_div fmt (Finite s m) (Finite t n) =
     (if n = 0 then (if m = 0 then NaN else Infinity (s \<noteq> t))
      else fp_round fmt (s \<noteq> t) (m / n))"

text \<open>The comparison \<open>a > b\<close> of C: false as soon as one side is a NaN.\<close>

fun fp_gt :: "ieee \<Rightarrow> ieee \<Rightarrow> bool" where
  "fp_gt NaN b = False"
| "fp_gt (Infinity s) NaN = False"
| "fp_gt (Finite s m) NaN = False"
| "fp_gt (Infinity s) (Infinity t) = (\<not> s \<and> t)"
| "fp_gt (Infinity s) (Finite t n) = (\<not> s)"
| "fp_gt (Finite s m) (Infinity t) = t"
| "fp_gt (Finite s m) (Finite t n) = (fval (Finite t n) < fval (Finite s m))"

text \<open>Conversion of an integer, and conversion between the formats.\<close>

definition fp_of_int :: "format \<Rightarrow> int \<Rightarrow> ieee" where
  "fp_of_int fmt i = fp_round fmt (i < 0) (of_int \<bar>i\<bar>)"

fun fp_convert :: "format \<Rightarrow> ieee \<Rightarrow> ieee" where
  "fp_convert fmt (Finite s m) = fp_round fmt s m"
| "fp_convert fmt (Infinity s) = Infinity s"
| "fp_convert fmt NaN = NaN"

definition float_zero :: float where
  "float_zero = Finite False 0"

text \<open>The object representation of a \<open>float\<close>: one sign bit, 8 exponent bits, 23 fraction bits.\<close>

definition float_of_bits :: "32 word \<Rightarrow> float" where
  "float_of_bits w =
     (let s = bit w 31;
          e = uint (take_bit 8 (drop_bit 23 w));
          f = uint (take_bit 23 w)
      in if e = 255 then (if f = 0 then Infinity s else NaN)
         else if e = 0 then Finite s (of_int f * 2 powi (- 149))
         else Finite s (of_int (2 ^ 23 + f) * 2 powi (e - 150)))"

subsection \<open>Arrays and counted loops\<close>

definition array_read :: "'a list \<Rightarrow> int \<Rightarrow> 'a option" where
  "array_read xs i = (if 0 \<le> i \<and> i < int (length xs) then Some (xs ! nat i) else None)"

definition array_write :: "'a list \<Rightarrow> int \<Rightarrow> 'a \<Rightarrow> 'a list option" where
  "array_write xs i v = (if 0 \<le> i \<and> i < int (length xs) then Some (xs[nat i := v]) else None)"

text \<open>
  The loop \<open>for (i = i0; i < n; i++) body\<close>, by recursion on the number of iterations that are
  left: it is called with \<open>nat (n - i0)\<close>, which is 0 when \<open>n \<le> i0\<close>.
\<close>

fun for_loop :: "nat \<Rightarrow> int \<Rightarrow> (int \<Rightarrow> 's \<Rightarrow> 's option) \<Rightarrow> 's \<Rightarrow> 's option" where
  "for_loop 0 i body s = Some s"
| "for_loop (Suc k) i body s = body i s \<bind> for_loop k (i + 1) body"

subsection \<open>The model\<close>

type_synonym int8_t = "8 word"
type_synonym uint8_t = "8 word"
type_synonym int16_t = "16 word"
type_synonym int32_t = "32 word"

record EmlTreesNode =
  feature :: int8_t
  node_value :: int16_t
  left :: int16_t
  right :: int16_t

record EmlTrees =
  n_nodes :: int32_t
  nodes :: "EmlTreesNode list"
  n_trees :: int32_t
  tree_roots :: "int32_t list"
  n_leaves :: int32_t
  leaves :: "uint8_t list"
  leaf_bits :: int8_t
  n_features :: int8_t
  n_classes :: int8_t

datatype EmlTreesError =
  EmlTreesOK | EmlTreesUnknownError | EmlTreesInvalidClassPredicted | EmlTreesErrorLength

fun EmlTreesError_value :: "EmlTreesError \<Rightarrow> int32_t" where
  "EmlTreesError_value EmlTreesOK = 0"
| "EmlTreesError_value EmlTreesUnknownError = 1"
| "EmlTreesError_value EmlTreesInvalidClassPredicted = 2"
| "EmlTreesError_value EmlTreesErrorLength = 3"

definition EMTREES_MAX_CLASSES :: int where
  "EMTREES_MAX_CLASSES = 30"

text \<open>
  Modelled from the spec: the header \<open>eml_common.h\<close>, which declares the status type
  \<open>EmlError\<close> and the macro \<open>EML_PRECONDITION\<close>, is not among the sources. The spec names the
  status kinds (OK, size-mismatch, unsupported-encoding, uninitialized-input) and says that
  an argument that fails its precondition is rejected at once with the kind given for it.
\<close>

datatype EmlError = EmlOk | EmlSizeMismatch | EmlUnsupported | EmlUninitialized

text \<open>
  Modelled from the spec: the macro \<open>EML_PRECONDITION(expr, errorcode)\<close> of the missing
  header \<open>eml_common.h\<close>. When \<open>expr\<close> is false the function returns \<open>errorcode\<close> at once,
  with the state as it is (\<open>unchanged\<close>); otherwise the rest of the function runs.
\<close>

definition EML_PRECONDITION :: "bool \<Rightarrow> 'e \<Rightarrow> ('e \<times> 'b) option \<Rightarrow> 'b \<Rightarrow> ('e \<times> 'b) option" where
  "EML_PRECONDITION expr errorcode rest unchanged =
     (if \<not> expr then Some (errorcode, unchanged) else rest)"

subsection \<open>Traversal of one tree\<close>

definition select_child :: "EmlTreesNode \<Rightarrow> int16_t \<Rightarrow> int16_t" where
  "select_child node v = (if sint v < sint (node_value node) then left node else right node)"

partial_function (option) predict_tree_loop ::
  "EmlTrees \<Rightarrow> int16_t list \<Rightarrow> int32_t \<Rightarrow> int32_t option" where
  "predict_tree_loop forest features node_idx =
     (if 0 \<le> sint node_idx then
        do {
          node \<leftarrow> array_read (nodes forest) (sint node_idx);
          v \<leftarrow> array_read features (sint (feature node));
          (if 0 \<le> sint (select_child node v) then
             (if sint node_idx + sint (select_child node v) < 2 ^ 31
              then predict_tree_loop forest features (node_idx + scast (select_child node v))
              else None)
           else predict_tree_loop forest features (scast (select_child node v)))
        }
      else Some node_idx)"

declare predict_tree_loop.simps [code]

text \<open>
  After the loop the leaf number \<open>-node_idx-1\<close> is computed in 32 bits, stored in an
  \<open>int16_t\<close> (the conversion keeps the low 16 bits) and returned as an \<open>int32_t\<close>.
\<close>

definition eml_trees_predict_tree ::
  "EmlTrees \<Rightarrow> int32_t \<Rightarrow> int16_t list \<Rightarrow> int8_t \<Rightarrow> int32_t option" where
  "eml_trees_predict_tree forest tree_root features features_length =
     do {
       node_idx \<leftarrow> predict_tree_loop forest features tree_root;
       (if sint node_idx = - (2 ^ 31) then None
        else Some (scast (ucast (- node_idx - 1 :: int32_t) :: int16_t)))
     }"

subsection \<open>Class scores: \<open>eml_trees_predict_proba\<close>\<close>

definition eml_trees_outputs_proba :: "EmlTrees \<Rightarrow> int32_t" where
  "eml_trees_outputs_proba self = scast (n_classes self)"

definition zero_fill :: "float list \<Rightarrow> int \<Rightarrow> float list option" where
  "zero_fill out out_length =
     for_loop (nat out_length) 0 (\<lambda>i out. array_write out i float_zero) out"

text \<open>
  One iteration of the majority-vote loop. The statement \<open>out[class_no] += 1.0\<close> adds a
  \<open>double\<close> constant: the element is widened, the sum is a \<open>double\<close>, and the assignment
  narrows it again.
\<close>

definition majority_vote ::
  "EmlTrees \<Rightarrow> int16_t list \<Rightarrow> int8_t \<Rightarrow> int \<Rightarrow> float list \<Rightarrow> float list option" where
  "majority_vote self features features_length i out =
     do {
       tree_root \<leftarrow> array_read (tree_roots self) i;
       leaf_number \<leftarrow> eml_trees_predict_tree self tree_root features features_length;
       leaf_data \<leftarrow> array_read (leaves self) (sint leaf_number);
       let class_no = uint leaf_data;
       votes \<leftarrow> array_read out class_no;
       array_write out class_no
         (fp_convert binary32 (fp_add binary64 (fp_convert binary64 votes) (Finite False 1)))
     }"

definition majority_votes ::
  "EmlTrees \<Rightarrow> int16_t list \<Rightarrow> int8_t \<Rightarrow> float list \<Rightarrow> float list option" where
  "majority_votes self features features_length out =
     for_loop (nat (sint (n_trees self))) 0 (majority_vote self features features_length) out"

text \<open>
  One iteration of the inner soft-vote loop. In \<open>leaf_data[class_no] / 255\<close> both operands
  are integers (the byte is promoted to \<open>int\<close>), so the quotient is the integer quotient,
  converted to \<open>float\<close> afterwards.
\<close>

definition soft_vote_class :: "EmlTrees \<Rightarrow> int \<Rightarrow> int \<Rightarrow> float list \<Rightarrow> float list option" where
  "soft_vote_class self leaf_offset class_no out =
     do {
       leaf_byte \<leftarrow> array_read (leaves self) (leaf_offset + class_no);
       let class_proportion = fp_of_int binary32 (uint leaf_byte div 255);
       score \<leftarrow> array_read out class_no;
       array_write out class_no (fp_add binary32 score class_proportion)
     }"

text \<open>Forming the pointer \<open>self->leaves + leaf_offset\<close> is defined only inside the array or
  one past its end.\<close>

definition soft_vote ::
  "EmlTrees \<Rightarrow> int16_t list \<Rightarrow> int8_t \<Rightarrow> int \<Rightarrow> float list \<Rightarrow> float list option" where
  "soft_vote self features features_length i out =
     do {
       tree_root \<leftarrow> array_read (tree_roots self) i;
       leaf_number \<leftarrow> eml_trees_predict_tree self tree_root features features_length;
       let leaf_size = 1 * sint (n_classes self);
       let leaf_offset = sint leaf_number * leaf_size;
       (if 0 \<le> leaf_offset \<and> leaf_offset \<le> int (length (leaves self))
        then for_loop (nat (sint (n_classes self))) 0 (soft_vote_class self leaf_offset) out
        else None)
     }"

definition soft_votes ::
  "EmlTrees \<Rightarrow> int16_t list \<Rightarrow> int8_t \<Rightarrow> float list \<Rightarrow> float list option" where
  "soft_votes self features features_length out =
     for_loop (nat (sint (n_trees self))) 0 (soft_vote self features features_length) out"

definition compute_mean :: "EmlTrees \<Rightarrow> int \<Rightarrow> float list \<Rightarrow> float list option" where
  "compute_mean self out_length out =
     for_loop (nat out_length) 0
       (\<lambda>i out. do {
          v \<leftarrow> array_read out i;
          array_write out i (fp_div binary32 v (fp_of_int binary32 (sint (n_trees self))))
        }) out"

text \<open>The function after its three preconditions, on the arrays behind the two pointers.\<close>

definition predict_proba_run ::
  "EmlTrees \<Rightarrow> int16_t list \<Rightarrow> int8_t \<Rightarrow> float list \<Rightarrow> int32_t \<Rightarrow> (EmlError \<times> float list) option" where
  "predict_proba_run self features features_length out out_length =
     do {
       out0 \<leftarrow> zero_fill out (sint out_length);
       (if sint (leaf_bits self) = 0 then
          do {
            acc \<leftarrow> majority_votes self features features_length out0;
            res \<leftarrow> compute_mean self (sint out_length) acc;
            Some (EmlOk, res)
          }
        else if sint (leaf_bits self) = 8 then
          do {
            acc \<leftarrow> soft_votes self features features_length out0;
            res \<leftarrow> compute_mean self (sint out_length) acc;
            Some (EmlOk, res)
          }
        else Some (EmlUnsupported, out0))
     }"

text \<open>
  The result is the status together with the final contents of the output buffer
  (\<open>None\<close> when the pointer is null).
\<close>

definition eml_trees_predict_proba ::
  "EmlTrees \<Rightarrow> int16_t list option \<Rightarrow> int8_t \<Rightarrow> float list option \<Rightarrow> int32_t
     \<Rightarrow> (EmlError \<times> float list option) option" where
  "eml_trees_predict_proba self features features_length out out_length =
     EML_PRECONDITION (features \<noteq> None) EmlUninitialized
       (EML_PRECONDITION (out \<noteq> None) EmlUninitialized
          (EML_PRECONDITION (out_length = eml_trees_outputs_proba self) EmlSizeMismatch
             (do {
                fs \<leftarrow> features;
                buf \<leftarrow> out;
                (err, buf') \<leftarrow> predict_proba_run self fs features_length buf out_length;
                Some (err, Some buf')
              }) out) out) out"

subsection \<open>The most probable class: \<open>eml_trees_predict\<close>\<close>

definition most_voted :: "float list \<Rightarrow> int \<Rightarrow> (int \<times> float) option" where
  "most_voted votes n =
     for_loop (nat n) 0
       (\<lambda>i (most_voted_class, most_voted_value). do {
          v \<leftarrow> array_read votes i;
          Some (if fp_gt v most_voted_value then (i, v)
                else (most_voted_class, most_voted_value))
        }) (- 1, float_zero)"

definition eml_trees_predict :: "EmlTrees \<Rightarrow> int16_t list option \<Rightarrow> int8_t \<Rightarrow> int32_t option" where
  "eml_trees_predict forest features features_length =
     (if features_length \<noteq> n_features forest
      then Some (- EmlTreesError_value EmlTreesErrorLength)
      else if EMTREES_MAX_CLASSES < sint (n_classes forest)
      then Some (- EmlTreesError_value EmlTreesErrorLength)
      else do {
        (err, out) \<leftarrow> eml_trees_predict_proba forest features features_length
                         (Some (replicate (nat EMTREES_MAX_CLASSES) float_zero))
                         (scast (n_classes forest));
        (if err \<noteq> EmlOk then Some (- EmlTreesError_value EmlTreesUnknownError)
         else do {
           votes \<leftarrow> out;
           (most_voted_class, most_voted_value) \<leftarrow> most_voted votes (sint (n_classes forest));
           Some (word_of_int most_voted_class)
         })
      })"

subsection \<open>Regression: \<open>eml_trees_regress\<close> and \<open>eml_trees_regress1\<close>\<close>

text \<open>The four bytes at an offset of the leaf buffer, read as a \<open>float\<close> (least significant
  byte first).\<close>

definition read_float :: "uint8_t list \<Rightarrow> int \<Rightarrow> float option" where
  "read_float bytes off =
     do {
       b0 \<leftarrow> array_read bytes off;
       b1 \<leftarrow> array_read bytes (off + 1);
       b2 \<leftarrow> array_read bytes (off + 2);
       b3 \<leftarrow> array_read bytes (off + 3);
       Some (float_of_bits (ucast b0 + push_bit 8 (ucast b1) + push_bit 16 (ucast b2)
                              + push_bit 24 (ucast b3)))
     }"

definition tree_value :: "EmlTrees \<Rightarrow> int16_t list \<Rightarrow> int8_t \<Rightarrow> int \<Rightarrow> float option" where
  "tree_value forest features features_length i =
     do {
       tree_root \<leftarrow> array_read (tree_roots forest) i;
       leaf_number \<leftarrow> eml_trees_predict_tree forest tree_root features features_length;
       let leaf_size = 4;
       let leaf_offset = sint leaf_number * leaf_size;
       read_float (leaves forest) leaf_offset
     }"

definition regress_sum :: "EmlTrees \<Rightarrow> int16_t list \<Rightarrow> int8_t \<Rightarrow> float option" where
  "regress_sum forest features features_length =
     for_loop (nat (sint (n_trees forest))) 0
       (\<lambda>i sum. do {
          val \<leftarrow> tree_value forest features features_length i;
          Some (fp_add binary32 sum val)
        }) float_zero"

text \<open>The array behind a pointer that is used without a null check: a null pointer has no
  element that may be read.\<close>

definition pointee :: "'a list option \<Rightarrow> 'a list" where
  "pointee p = (case p of None \<Rightarrow> [] | Some xs \<Rightarrow> xs)"

definition eml_trees_regress ::
  "EmlTrees \<Rightarrow> int16_t list option \<Rightarrow> int8_t \<Rightarrow> float list option \<Rightarrow> int8_t
     \<Rightarrow> (EmlError \<times> float list option) option" where
  "eml_trees_regress forest features features_length out out_length =
     (if sint out_length < 1 then Some (EmlSizeMismatch, out)
      else if sint (leaf_bits forest) \<noteq> 32 then Some (EmlUnsupported, out)
      else do {
        sum \<leftarrow> regress_sum forest (pointee features) features_length;
        buf' \<leftarrow> array_write (pointee out) 0
                  (fp_div binary32 sum (fp_of_int binary32 (sint (n_trees forest))));
        Some (EmlOk, Some buf')
      })"

text \<open>The local array \<open>float out[1]\<close> is not initialised: its first content is the
  parameter \<open>uninit\<close>.\<close>

definition eml_trees_regress1 ::
  "EmlTrees \<Rightarrow> int16_t list option \<Rightarrow> int8_t \<Rightarrow> float \<Rightarrow> float option" where
  "eml_trees_regress1 forest features features_length uninit =
     do {
       (err, out) \<leftarrow> eml_trees_regress forest features features_length (Some [uninit]) 1;
       (if err \<noteq> EmlOk then Some NaN
        else array_read (pointee out) 0)
     }"

section \<open>The specification's reading of the traversal, and well-formed models\<close>

text \<open>
  The traversal as the specification words it, on unbounded integers: start at the root; while
  the index is not negative, read the node, compare the node's feature with its threshold,
  take the left child if the feature is smaller and the right child otherwise, add a
  non-negative child to the index and replace the index by a negative child; on exit the
  leaf is \<open>-node_idx - 1\<close>.
\<close>

partial_function (option) traverse_loop_spec ::
  "EmlTrees \<Rightarrow> int16_t list \<Rightarrow> int \<Rightarrow> int option" where
  "traverse_loop_spec model features node_idx =
     (if node_idx \<ge> 0 then
        do {
          node \<leftarrow> array_read (nodes model) node_idx;
          x \<leftarrow> array_read features (sint (feature node));
          (if sint (if sint x < sint (node_value node) then left node else right node) \<ge> 0
           then traverse_loop_spec model features
                  (node_idx + sint (if sint x < sint (node_value node) then left node else right node))
           else traverse_loop_spec model features
                  (sint (if sint x < sint (node_value node) then left node else right node)))
        }
      else Some node_idx)"

declare traverse_loop_spec.simps [code]

definition traverse_spec :: "EmlTrees \<Rightarrow> int \<Rightarrow> int16_t list \<Rightarrow> int option" where
  "traverse_spec model tree_root features =
     map_option (\<lambda>node_idx. - node_idx - 1) (traverse_loop_spec model features tree_root)"

text \<open>
  A node array is well formed when its \<open>n_nodes\<close> entries are allocated, every feature index
  lies in \<open>[0, n_features)\<close>, every negative child names a leaf below \<open>n_leaves\<close>, and every
  other child is a strictly positive jump that stays below \<open>n_nodes\<close> (so that no path
  returns to a node).
\<close>

definition wf_child :: "EmlTrees \<Rightarrow> int \<Rightarrow> int16_t \<Rightarrow> bool" where
  "wf_child forest i c =
     (if sint c < 0 then - sint c - 1 < sint (n_leaves forest)
      else 0 < sint c \<and> i + sint c < sint (n_nodes forest))"

definition wf_node :: "EmlTrees \<Rightarrow> int \<Rightarrow> EmlTreesNode \<Rightarrow> bool" where
  "wf_node forest i node =
     (0 \<le> sint (feature node) \<and> sint (feature node) < sint (n_features forest)
      \<and> wf_child forest i (left node) \<and> wf_child forest i (right node))"

definition wf_nodes :: "EmlTrees \<Rightarrow> bool" where
  "wf_nodes forest =
     (sint (n_nodes forest) \<le> int (length (nodes forest))
      \<and> (\<forall>i \<in> {0 ..< nat (sint (n_nodes forest))}. wf_node forest (int i) (nodes forest ! i)))"

text \<open>
  The tree roots are well formed when \<open>n_trees\<close> is not negative, the \<open>n_trees\<close> roots are
  allocated and each is an index into the node array. The leaves of a majority-vote model are
  well formed when the \<open>n_leaves\<close> bytes are allocated and each is a class index below
  \<open>n_classes\<close>.
\<close>

definition wf_roots :: "EmlTrees \<Rightarrow> bool" where
  "wf_roots forest =
     (0 \<le> sint (n_trees forest) \<and> sint (n_trees forest) \<le> int (length (tree_roots forest))
      \<and> (\<forall>t \<in> {0 ..< nat (sint (n_trees forest))}.
            0 \<le> sint (tree_roots forest ! t)
            \<and> sint (tree_roots forest ! t) < sint (n_nodes forest)))"

definition wf_class_leaves :: "EmlTrees \<Rightarrow> bool" where
  "wf_class_leaves forest =
     (sint (n_leaves forest) \<le> int (length (leaves forest))
      \<and> (\<forall>j \<in> {0 ..< nat (sint (n_leaves forest))}.
            uint (leaves forest ! j) < sint (n_classes forest)))"

text \<open>The \<open>float\<close> that holds the natural number \<open>c\<close>.\<close>

definition vote_count :: "nat \<Rightarrow> float" where
  "vote_count c = Finite False (of_nat c)"

section \<open>Example models\<close>

text \<open>A forest whose only node jumps to itself: no traversal of it ever returns.\<close>

definition cyclic_forest :: EmlTrees where
  "cyclic_forest = \<lparr> n_nodes = 1,
     nodes = [\<lparr> feature = 0, node_value = 10, left = 0, right = 0 \<rparr>],
     n_trees = 1, tree_roots = [0], n_leaves = 1, leaves = [0],
     leaf_bits = 0, n_features = 1, n_classes = 2 \<rparr>"

text \<open>Scenario A of the specification: one node, two leaves.\<close>

definition single_node_forest :: EmlTrees where
  "single_node_forest = \<lparr> n_nodes = 1,
     nodes = [\<lparr> feature = 0, node_value = 10, left = - 1, right = - 2 \<rparr>],
     n_trees = 1, tree_roots = [0], n_leaves = 2, leaves = [0, 1],
     leaf_bits = 0, n_features = 1, n_classes = 2 \<rparr>"

text \<open>A regression forest of one tree with the leaves 1.0 and 2.0.\<close>

definition regress_forest :: EmlTrees where
  "regress_forest = \<lparr> n_nodes = 1,
     nodes = [\<lparr> feature = 0, node_value = 10, left = - 1, right = - 2 \<rparr>],
     n_trees = 1, tree_roots = [0], n_leaves = 2,
     leaves = [0, 0, 0x80, 0x3f, 0, 0, 0, 0x40],
     leaf_bits = 32, n_features = 1, n_classes = 0 \<rparr>"

text \<open>A regression forest of three trees over the same two leaves, 1.0 and 2.0.\<close>

definition regress3_forest :: EmlTrees where
  "regress3_forest = \<lparr> n_nodes = 3,
     nodes = [\<lparr> feature = 0, node_value = 10, left = - 1, right = - 2 \<rparr>,
              \<lparr> feature = 0, node_value = 0, left = - 1, right = - 2 \<rparr>,
              \<lparr> feature = 0, node_value = 3, left = - 1, right = - 2 \<rparr>],
     n_trees = 3, tree_roots = [0, 1, 2], n_leaves = 2,
     leaves = [0, 0, 0x80, 0x3f, 0, 0, 0, 0x40],
     leaf_bits = 32, n_features = 1, n_classes = 0 \<rparr>"

text \<open>Scenario B of the specification: three trees that vote for one of two classes.\<close>

definition majority_forest :: EmlTrees where
  "majority_forest = \<lparr> n_nodes = 3,
     nodes = [\<lparr> feature = 0, node_value = 10, left = - 1, right = - 2 \<rparr>,
              \<lparr> feature = 0, node_value = 0, left = - 1, right = - 2 \<rparr>,
              \<lparr> feature = 0, node_value = 3, left = - 1, right = - 2 \<rparr>],
     n_trees = 3, tree_roots = [0, 1, 2], n_leaves = 2, leaves = [0, 1],
     leaf_bits = 0, n_features = 1, n_classes = 2 \<rparr>"

text \<open>Scenario C of the specification: one soft-vote tree whose first leaf holds the bytes
  200 and 55.\<close>

definition soft_vote_forest :: EmlTrees where
  "soft_vote_forest = \<lparr> n_nodes = 1,
     nodes = [\<lparr> feature = 0, node_value = 10, left = - 1, right = - 2 \<rparr>],
     n_trees = 1, tree_roots = [0], n_leaves = 2, leaves = [200, 55, 255, 0],
     leaf_bits = 8, n_features = 1, n_classes = 2 \<rparr>"

text \<open>A majority-vote forest of \<open>2^24 + 1\<close> trees, all of them the same single node, which
  leads to class 0.\<close>

definition saturating_forest :: EmlTrees where
  "saturating_forest = \<lparr> n_nodes = 1,
     nodes = [\<lparr> feature = 0, node_value = 10, left = - 1, right = - 1 \<rparr>],
     n_trees = 16777217, tree_roots = replicate 16777217 0, n_leaves = 1, leaves = [0],
     leaf_bits = 0, n_features = 1, n_classes = 1 \<rparr>"

section \<open>Properties\<close>

subsection \<open>Rounding\<close>

text \<open>
  The logarithm \<open>ilog2\<close> is the exponent of the binade of its argument, so that the overflow
  test of \<open>fp_round\<close> can be computed on exponents; natural numbers up to \<open>2 ^ precision\<close>
  are rounded to themselves.
\<close>

lemma bitlen_bounds:
  "0 < n \<Longrightarrow> 1 \<le> bitlen n \<and> 2 ^ nat (bitlen n - 1) \<le> n \<and> n < 2 ^ nat (bitlen n)"
proof (induction n rule: bitlen.induct)
  case (1 n)
  show ?case
  proof (cases "0 < n div 2")
    case False
    with 1 have "n = 1" by auto
    then show ?thesis by (simp add: bitlen.simps [of 1] bitlen.simps [of 0])
  next
    case True
    from 1 True have ih: "1 \<le> bitlen (n div 2)"
      "2 ^ nat (bitlen (n div 2) - 1) \<le> n div 2" "n div 2 < 2 ^ nat (bitlen (n div 2))"
      by auto
    have bn: "bitlen n = bitlen (n div 2) + 1" using 1(2) by (simp add: bitlen.simps [of n])
    have "nat (bitlen n) = Suc (nat (bitlen (n div 2)))"
      using ih(1) bn by simp
    then have p2: "(2 :: int) ^ nat (bitlen n) = 2 * 2 ^ nat (bitlen (n div 2))"
      by simp
    have "nat (bitlen n - 1) = Suc (nat (bitlen (n div 2) - 1))"
      using ih(1) bn by simp
    then have p1: "(2 :: int) ^ nat (bitlen n - 1) = 2 * 2 ^ nat (bitlen (n div 2) - 1)"
      by simp
    from ih(2) have "2 * 2 ^ nat (bitlen (n div 2) - 1) \<le> n" by linarith
    moreover from ih(3) have "n < 2 * 2 ^ nat (bitlen (n div 2))" by linarith
    ultimately show ?thesis using ih(1) bn p1 p2 by simp
  qed
qed


lemma pow2_nat: "0 \<le> k \<Longrightarrow> (2 :: rat) powi k = 2 ^ nat k"
  by (simp add: power_int_def)

lemma pow2_diff: "(2 :: rat) powi (a - b) = 2 powi a / 2 powi b"
  by (rule power_int_diff) simp

lemma of_int_pow2_le: "2 ^ k \<le> (n :: int) \<Longrightarrow> (2 :: rat) ^ k \<le> of_int n"
proof -
  assume "2 ^ k \<le> n"
  then have "(of_int (2 ^ k) :: rat) \<le> of_int n" by (simp only: of_int_le_iff)
  then show ?thesis by simp
qed

lemma of_int_less_pow2: "(n :: int) < 2 ^ k \<Longrightarrow> (of_int n :: rat) < 2 ^ k"
proof -
  assume "n < 2 ^ k"
  then have "(of_int n :: rat) < of_int (2 ^ k)" by (simp only: of_int_less_iff)
  then show ?thesis by simp
qed

lemma ilog2_bounds:
  assumes "0 < m"
  shows "2 powi (ilog2 m) \<le> m \<and> m < 2 powi (ilog2 m + 1)"
proof -
  obtain n d where q: "quotient_of m = (n, d)" by (cases "quotient_of m")
  then have d: "0 < d" and m: "m = of_int n / of_int d"
    by (auto dest: quotient_of_denom_pos quotient_of_div)
  from assms m d have n: "0 < n" by (simp add: zero_less_divide_iff)
  let ?bn = "bitlen n" and ?bd = "bitlen d"
  from bitlen_bounds [OF n] have bn: "1 \<le> ?bn" "2 ^ nat (?bn - 1) \<le> n" "n < 2 ^ nat ?bn" by auto
  from bitlen_bounds [OF d] have bd: "1 \<le> ?bd" "2 ^ nat (?bd - 1) \<le> d" "d < 2 ^ nat ?bd" by auto
  have dpos: "(0 :: rat) < of_int d" using d by simp
  have npos: "(0 :: rat) < of_int n" using n by simp
  have lower: "2 powi (?bn - ?bd - 1) \<le> m"
  proof -
    have e1: "?bn - ?bd - 1 = (?bn - 1) - ?bd" by simp
    have "(2 :: rat) powi (?bn - ?bd - 1) = 2 powi ((?bn - 1) - ?bd)" by (simp only: e1)
    also have "\<dots> = 2 powi (?bn - 1) / 2 powi ?bd"
      by (rule pow2_diff)
    also have "\<dots> = 2 ^ nat (?bn - 1) / 2 ^ nat ?bd"
      using bn(1) bd(1) by (simp only: pow2_nat)
    also have "\<dots> \<le> of_int n / of_int d"
    proof -
      have a: "(2 :: rat) ^ nat (?bn - 1) \<le> of_int n" using bn(2) by (rule of_int_pow2_le)
      have b: "(of_int d :: rat) \<le> 2 ^ nat ?bd" using of_int_less_pow2 [OF bd(3)] by simp
      have c: "(0 :: rat) \<le> of_int n" using npos by simp
      show ?thesis by (rule frac_le [OF c a dpos b])
    qed
    finally show ?thesis using m by simp
  qed
  have upper: "m < 2 powi (?bn - ?bd + 1)"
  proof -
    have "m = of_int n / of_int d" by (fact m)
    also have "\<dots> < 2 ^ nat ?bn / 2 ^ nat (?bd - 1)"
    proof -
      have a: "(of_int n :: rat) < 2 ^ nat ?bn" using bn(3) by (rule of_int_less_pow2)
      have b: "(2 :: rat) ^ nat (?bd - 1) \<le> of_int d" using bd(2) by (rule of_int_pow2_le)
      have c: "(0 :: rat) \<le> of_int n" using npos by simp
      have e: "(0 :: rat) < 2 ^ nat (?bd - 1)" by simp
      show ?thesis by (rule frac_less [OF c a e b])
    qed
    also have "\<dots> = 2 powi ?bn / 2 powi (?bd - 1)"
      using bn(1) bd(1) by (simp only: pow2_nat)
    also have "\<dots> = 2 powi (?bn - (?bd - 1))"
      by (rule pow2_diff [symmetric])
    finally have "m < 2 powi (?bn - (?bd - 1))" .
    moreover have e2: "?bn - (?bd - 1) = ?bn - ?bd + 1" by simp
    ultimately show ?thesis by (simp only: e2)
  qed
  show ?thesis
  proof (cases "m < 2 powi (?bn - ?bd)")
    case True
    then have "ilog2 m = ?bn - ?bd - 1" by (simp add: ilog2_def q)
    with True lower show ?thesis by simp
  next
    case False
    then have "ilog2 m = ?bn - ?bd" by (simp add: ilog2_def q)
    with False upper show ?thesis by simp
  qed
qed

lemma ilog2_le_iff:
  assumes "0 < m"
  shows "e \<le> ilog2 m \<longleftrightarrow> 2 powi e \<le> m"
proof
  assume "e \<le> ilog2 m"
  then have "(2 :: rat) powi e \<le> 2 powi (ilog2 m)" by (intro power_int_increasing) auto
  with ilog2_bounds [OF assms] show "2 powi e \<le> m" by simp
next
  assume le: "2 powi e \<le> m"
  show "e \<le> ilog2 m"
  proof (rule ccontr)
    assume "\<not> e \<le> ilog2 m"
    then have "ilog2 m + 1 \<le> e" by simp
    then have "(2 :: rat) powi (ilog2 m + 1) \<le> 2 powi e" by (intro power_int_increasing) auto
    with ilog2_bounds [OF assms] le show False by simp
  qed
qed

lemma fp_round_code [code]:
  "fp_round fmt s m =
     (let r = round_mag fmt m
      in if 0 < r \<and> exp_max fmt \<le> ilog2 r then Infinity s else Finite s r)"
proof (cases "0 < round_mag fmt m")
  case True
  then show ?thesis by (simp add: fp_round_def Let_def ilog2_le_iff)
next
  case False
  have "(0 :: rat) < 2 powi (exp_max fmt)" by simp
  with False have "\<not> 2 powi (exp_max fmt) \<le> round_mag fmt m" by linarith
  with False show ?thesis by (simp add: fp_round_def Let_def)
qed

lemma round_half_even_of_int: "round_half_even (of_int z) = z"
  by (simp add: round_half_even_def)

lemma round_mag_nat_exact:
  assumes k: "0 < k" and le: "of_nat k \<le> (2 :: rat) ^ precision fmt"
    and emin: "ulp_min fmt \<le> 0" and p: "1 \<le> precision fmt"
  shows "round_mag fmt (of_nat k) = of_nat k"
proof -
  let ?m = "of_nat k :: rat"
  let ?p = "int (precision fmt)"
  let ?e = "max (ilog2 ?m - (?p - 1)) (ulp_min fmt)"
  have mpos: "0 < ?m" using k by simp
  have "\<exists>z. ?m / 2 powi ?e = of_int z"
  proof (cases "?e \<le> 0")
    case True
    then have "(2 :: rat) powi ?e = 1 / 2 ^ nat (- ?e)"
      by (simp add: power_int_def field_simps)
    then have "?m / 2 powi ?e = of_int (int k * 2 ^ nat (- ?e))" by simp
    then show ?thesis by blast
  next
    case False
    with emin have e: "?e = ilog2 ?m - (?p - 1)" and big: "?p \<le> ilog2 ?m" by auto
    from big have "2 powi ?p \<le> ?m" by (simp only: ilog2_le_iff [OF mpos])
    with le have m: "?m = 2 ^ precision fmt" by simp
    have "\<not> ?p + 1 \<le> ilog2 ?m"
    proof
      assume "?p + 1 \<le> ilog2 ?m"
      then have "(2 :: rat) powi (?p + 1) \<le> ?m" by (simp only: ilog2_le_iff [OF mpos])
      moreover have "(2 :: rat) powi (?p + 1) = 2 * 2 ^ precision fmt"
        by (simp add: power_int_add)
      ultimately show False using m by simp
    qed
    with big have "ilog2 ?m = ?p" by simp
    with e have e1: "?e = 1" by simp
    obtain q where q: "precision fmt = Suc q" using p by (cases "precision fmt") auto
    have "?m / 2 powi ?e = ?m / 2" by (simp only: e1 power_int_1_right)
    also have "\<dots> = of_int (2 ^ q)" by (simp only: m q) simp
    finally show ?thesis by blast
  qed
  then obtain z where z: "?m / 2 powi ?e = of_int z" by blast
  have "of_int z * 2 powi ?e = ?m"
    unfolding z [symmetric] by simp
  then show ?thesis
    using mpos by (simp add: round_mag_def Let_def z round_half_even_of_int)
qed

lemma fp_round_nat_exact:
  assumes le: "of_nat k \<le> (2 :: rat) ^ precision fmt"
    and emin: "ulp_min fmt \<le> 0" and p: "1 \<le> precision fmt"
    and emax: "int (precision fmt) < exp_max fmt"
  shows "fp_round fmt s (of_nat k) = Finite s (of_nat k)"
proof -
  have r: "round_mag fmt (of_nat k) = of_nat k"
  proof (cases "k = 0")
    case True
    then show ?thesis by (simp add: round_mag_def)
  next
    case False
    then show ?thesis using round_mag_nat_exact [OF _ le emin p] by simp
  qed
  have "(2 :: rat) ^ precision fmt = 2 powi (int (precision fmt))" by simp
  also have "\<dots> < 2 powi (exp_max fmt)"
    using emax by (intro power_int_strict_increasing) auto
  finally have "(2 :: rat) ^ precision fmt < 2 powi (exp_max fmt)" .
  with le have "of_nat k < (2 :: rat) powi (exp_max fmt)" by (rule le_less_trans)
  then show ?thesis by (simp add: fp_round_def r)
qed

lemma float_increment:
  assumes "k < 2 ^ 24"
  shows "fp_convert binary32 (fp_add binary64 (fp_convert binary64 (Finite False (of_nat k)))
           (Finite False 1)) = Finite False (of_nat (Suc k))"
proof -
  have k64: "(of_nat k :: rat) \<le> 2 ^ 53"
  proof -
    have "k \<le> 2 ^ 53" using assms by (rule less_imp_le [OF less_le_trans]) simp
    then have "(of_nat k :: rat) \<le> of_nat (2 ^ 53)" by (simp only: of_nat_le_iff)
    then show ?thesis by simp
  qed
  have s64: "(of_nat (Suc k) :: rat) \<le> 2 ^ 53"
  proof -
    have "Suc k \<le> 2 ^ 53" using assms by (rule le_trans [OF Suc_leI]) simp
    then have "(of_nat (Suc k) :: rat) \<le> of_nat (2 ^ 53)" by (simp only: of_nat_le_iff)
    then show ?thesis by simp
  qed
  have s32: "(of_nat (Suc k) :: rat) \<le> 2 ^ 24"
  proof -
    have "Suc k \<le> 2 ^ 24" using assms by simp
    then have "(of_nat (Suc k) :: rat) \<le> of_nat (2 ^ 24)" by (simp only: of_nat_le_iff)
    then show ?thesis by simp
  qed
  have a: "fp_convert binary64 (Finite False (of_nat k)) = Finite False (of_nat k)"
    using fp_round_nat_exact [of k binary64 False] k64 by (simp add: binary64_def)
  have nz: "(of_nat k :: rat) + 1 \<noteq> 0"
    using of_nat_0_le_iff [of k, where 'a = rat] by linarith
  have abs: "\<bar>(of_nat k :: rat) + 1\<bar> = of_nat (Suc k)" by simp
  have b: "fp_add binary64 (Finite False (of_nat k)) (Finite False 1) = Finite False (of_nat (Suc k))"
    using fp_round_nat_exact [of "Suc k" binary64 False] s64 nz
    by (simp add: binary64_def fp_of_rat_def Let_def abs del: of_nat_Suc)
  have c: "fp_convert binary32 (Finite False (of_nat (Suc k))) = Finite False (of_nat (Suc k))"
    using fp_round_nat_exact [of "Suc k" binary32 False] s32
    by (simp add: binary32_def del: of_nat_Suc)
  show ?thesis by (simp only: a b c)
qed

lemma float_saturates:
  "fp_convert binary32 (fp_add binary64 (fp_convert binary64 (Finite False 16777216))
     (Finite False 1)) = Finite False 16777216"
  by code_simp


subsection \<open>Loops, arrays and casts\<close>

lemma for_loop_rule:
  assumes "I i0 s0"
    and "\<And>i s. i0 \<le> i \<Longrightarrow> i < i0 + int k \<Longrightarrow> I i s \<Longrightarrow> \<exists>s'. body i s = Some s' \<and> I (i + 1) s'"
  shows "\<exists>s'. for_loop k i0 body s0 = Some s' \<and> I (i0 + int k) s'"
  using assms
proof (induction k arbitrary: i0 s0)
  case 0
  then show ?case by simp
next
  case (Suc k)
  from Suc.prems(2) [of i0 s0] Suc.prems(1)
  obtain s1 where s1: "body i0 s0 = Some s1" "I (i0 + 1) s1" by auto
  have "\<exists>s'. for_loop k (i0 + 1) body s1 = Some s' \<and> I (i0 + 1 + int k) s'"
  proof (rule Suc.IH [OF s1(2)])
    fix i s
    assume "i0 + 1 \<le> i" "i < i0 + 1 + int k" "I i s"
    then show "\<exists>s'. body i s = Some s' \<and> I (i + 1) s'"
      using Suc.prems(2) [of i s] by auto
  qed
  then show ?case using s1 by (auto simp: add.assoc)
qed

lemma zero_fill_step:
  "i < length buf \<Longrightarrow>
   (replicate i z @ drop i buf)[i := z] = replicate (Suc i) z @ drop (Suc i) buf"
  by (metis Cons_nth_drop_Suc append_Cons length_replicate
    list_update_length replicate_Suc replicate_app_Cons_same)

lemma sint8_range: "- 128 \<le> sint (c :: 8 word) \<and> sint c < 128"
  using sint_ge [of c] sint_lt [of c] by simp

lemma sint16_range: "- 32768 \<le> sint (c :: 16 word) \<and> sint c < 32768"
  using sint_ge [of c] sint_lt [of c] by simp

lemma sint32_range: "- 2147483648 \<le> sint (c :: 32 word) \<and> sint c < 2147483648"
  using sint_ge [of c] sint_lt [of c] by simp

lemma sint_scast_8_32: "sint (scast (c :: 8 word) :: 32 word) = sint c"
  using sint8_range [of c] by (simp add: signed_scast_eq signed_take_bit_int_eq_self)

lemma sint_scast_16_32: "sint (scast (c :: 16 word) :: 32 word) = sint c"
  using sint16_range [of c] by (simp add: signed_scast_eq signed_take_bit_int_eq_self)

lemma outputs_proba_eq:
  "out_length = eml_trees_outputs_proba self \<longleftrightarrow> sint out_length = sint (n_classes self)"
proof
  assume "out_length = eml_trees_outputs_proba self"
  then show "sint out_length = sint (n_classes self)"
    by (simp add: eml_trees_outputs_proba_def sint_scast_8_32)
next
  assume "sint out_length = sint (n_classes self)"
  then have "sint out_length = sint (scast (n_classes self) :: 32 word)"
    by (simp add: sint_scast_8_32)
  then show "out_length = eml_trees_outputs_proba self"
    unfolding eml_trees_outputs_proba_def by (rule signed_word_eqI)
qed

lemma zero_fill_result:
  assumes "n \<le> int (length buf)"
  shows "zero_fill buf n = Some (replicate (nat n) float_zero @ drop (nat n) buf)"
proof -
  let ?I = "\<lambda>i s. s = replicate (nat i) float_zero @ drop (nat i) buf"
  have "\<exists>s'. for_loop (nat n) 0 (\<lambda>i out. array_write out i float_zero) buf = Some s'
          \<and> ?I (0 + int (nat n)) s'"
  proof (rule for_loop_rule [where I = ?I])
    show "?I 0 buf" by simp
  next
    fix i s
    assume i: "0 \<le> i" "i < 0 + int (nat n)" and s: "?I i s"
    from i assms have lt: "nat i < length buf" by linarith
    have len: "length s = length buf" using s lt by simp
    have "array_write s i float_zero = Some (s[nat i := float_zero])"
      using i lt len by (simp add: array_write_def)
    moreover have "s[nat i := float_zero]
        = replicate (nat (i + 1)) float_zero @ drop (nat (i + 1)) buf"
      using zero_fill_step [OF lt, of float_zero] s i by (simp add: nat_add_distrib)
    ultimately show "\<exists>s'. array_write s i float_zero = Some s' \<and> ?I (i + 1) s'" by simp
  qed
  then show ?thesis by (auto simp: zero_fill_def)
qed

lemma for_loop_fold:
  assumes "for_loop k i0 (\<lambda>i acc. f i \<bind> (\<lambda>v. Some (g acc v))) a = Some r"
  shows "\<exists>vals. length vals = k \<and> (\<forall>j<k. f (i0 + int j) = Some (vals ! j))
           \<and> r = foldl g a vals"
  using assms
proof (induction k arbitrary: i0 a)
  case 0
  then show ?case by simp
next
  case (Suc k)
  from Suc.prems obtain v where v: "f i0 = Some v"
    and rest: "for_loop k (i0 + 1) (\<lambda>i acc. f i \<bind> (\<lambda>v. Some (g acc v))) (g a v) = Some r"
    by (auto simp: bind_eq_Some_conv)
  from Suc.IH [OF rest] obtain vals where vals: "length vals = k"
    "\<forall>j<k. f (i0 + 1 + int j) = Some (vals ! j)" "r = foldl g (g a v) vals"
    by blast
  have "\<forall>j<Suc k. f (i0 + int j) = Some ((v # vals) ! j)"
  proof (intro allI impI)
    fix j assume "j < Suc k"
    show "f (i0 + int j) = Some ((v # vals) ! j)"
    proof (cases j)
      case 0
      then show ?thesis using v by simp
    next
      case (Suc j')
      have eq: "i0 + int j = i0 + 1 + int j'" using Suc by simp
      from \<open>j < Suc k\<close> Suc vals(2) have "f (i0 + 1 + int j') = Some (vals ! j')" by simp
      then show ?thesis unfolding eq using Suc by simp
    qed
  qed
  with vals show ?case by (intro exI [of _ "v # vals"]) simp
qed

lemma regress_sum_fold:
  assumes "regress_sum forest fs features_length = Some leaf_sum"
  shows "\<exists>vals. length vals = nat (sint (n_trees forest))
           \<and> (\<forall>j<length vals. tree_value forest fs features_length (int j) = Some (vals ! j))
           \<and> leaf_sum = foldl (fp_add binary32) float_zero vals"
  using for_loop_fold [OF assms [unfolded regress_sum_def]] by auto

subsection \<open>Argument checks of \<open>eml_trees_predict\<close>\<close>

text \<open>
  C4. \<open>eml_trees_predict\<close> returns the negated length error, \<open>-EmlTreesErrorLength\<close>, when
  \<open>features_length\<close> differs from the model's \<open>n_features\<close>, and also when the model's
  \<open>n_classes\<close> exceeds 30. The result does not depend on the nodes, roots or leaves, nor on
  the feature pointer: it is returned before any tree is traversed, also for a model whose
  traversal would not return.
\<close>

theorem predict_length_error:
  assumes "features_length \<noteq> n_features forest \<or> 30 < sint (n_classes forest)"
  shows "eml_trees_predict forest features features_length
           = Some (- EmlTreesError_value EmlTreesErrorLength)"
  using assms by (auto simp: eml_trees_predict_def EMTREES_MAX_CLASSES_def)

theorem predict_length_error_witness:
  "n_features cyclic_forest = 1 \<and> eml_trees_predict cyclic_forest (Some [5]) 2 = Some (- 3)"
  using predict_length_error [of 2 cyclic_forest "Some [5]"]
  by (simp add: cyclic_forest_def)

subsection \<open>Argument checks of \<open>eml_trees_predict_proba\<close>\<close>

text \<open>
  C9. \<open>eml_trees_predict_proba\<close> rejects a null feature pointer or a null output pointer with
  \<open>EmlUninitialized\<close>, and an \<open>out_length\<close> that differs from the model's \<open>n_classes\<close> with
  \<open>EmlSizeMismatch\<close>. In the three cases the output buffer that is returned is the one that
  was passed: nothing has been written to it, not even the zeros.
\<close>

theorem predict_proba_rejects_before_writing:
  "(features = None \<or> out = None \<longrightarrow>
      eml_trees_predict_proba self features features_length out out_length
        = Some (EmlUninitialized, out))
   \<and> (features \<noteq> None \<and> out \<noteq> None \<and> sint out_length \<noteq> sint (n_classes self) \<longrightarrow>
      eml_trees_predict_proba self features features_length out out_length
        = Some (EmlSizeMismatch, out))"
  by (auto simp: eml_trees_predict_proba_def EML_PRECONDITION_def outputs_proba_eq)

theorem predict_proba_rejects_before_writing_witness:
  "eml_trees_predict_proba cyclic_forest None 1 (Some [NaN, NaN]) 2
     = Some (EmlUninitialized, Some [NaN, NaN])
   \<and> eml_trees_predict_proba cyclic_forest (Some [5]) 1 None 2 = Some (EmlUninitialized, None)
   \<and> sint (n_classes cyclic_forest) = 2
   \<and> eml_trees_predict_proba cyclic_forest (Some [5]) 1 (Some [NaN, NaN, NaN]) 3
     = Some (EmlSizeMismatch, Some [NaN, NaN, NaN])"
  using predict_proba_rejects_before_writing [where features = None and out = "Some [NaN, NaN]"
      and self = cyclic_forest and features_length = 1 and out_length = 2]
    predict_proba_rejects_before_writing [where features = "Some [5]" and out = None
      and self = cyclic_forest and features_length = 1 and out_length = 2]
    predict_proba_rejects_before_writing [where features = "Some [5]"
      and out = "Some [NaN, NaN, NaN]" and self = cyclic_forest and features_length = 1
      and out_length = 3]
  by (simp add: cyclic_forest_def)

text \<open>
  C10. When \<open>eml_trees_predict_proba\<close> fails with \<open>EmlUnsupported\<close> (\<open>leaf_bits\<close> neither 0 nor
  8, pointers not null, \<open>out_length\<close> equal to \<open>n_classes\<close> and within the buffer), the
  elements \<open>out[0..out_length)\<close> are all zero on return, and the rest of the buffer is as it
  was.
\<close>

theorem predict_proba_unsupported_zero_filled:
  assumes "sint (leaf_bits self) \<noteq> 0" and "sint (leaf_bits self) \<noteq> 8"
    and "sint out_length = sint (n_classes self)"
    and "sint out_length \<le> int (length buf)"
  shows "eml_trees_predict_proba self (Some fs) features_length (Some buf) out_length
           = Some (EmlUnsupported,
                   Some (replicate (nat (sint out_length)) float_zero
                         @ drop (nat (sint out_length)) buf))"
  using assms
  by (simp add: eml_trees_predict_proba_def EML_PRECONDITION_def outputs_proba_eq
      predict_proba_run_def zero_fill_result)



theorem predict_proba_unsupported_zero_filled_witness:
  "sint (leaf_bits (cyclic_forest\<lparr>leaf_bits := 16\<rparr>)) = 16
   \<and> sint (n_classes (cyclic_forest\<lparr>leaf_bits := 16\<rparr>)) = 2
   \<and> eml_trees_predict_proba (cyclic_forest\<lparr>leaf_bits := 16\<rparr>) (Some [5]) 1
         (Some [NaN, Finite False 3, Finite True 7]) 2
       = Some (EmlUnsupported, Some [Finite False 0, Finite False 0, Finite True 7])"
  using predict_proba_unsupported_zero_filled [where self = "cyclic_forest\<lparr>leaf_bits := 16\<rparr>"
      and fs = "[5]" and features_length = 1 and buf = "[NaN, Finite False 3, Finite True 7]"
      and out_length = 2]
  by (simp add: cyclic_forest_def float_zero_def numeral_2_eq_2)

subsection \<open>Traversal\<close>

lemma sint_word_of_int_32:
  "- (2 ^ 31) \<le> k \<Longrightarrow> k < 2 ^ 31 \<Longrightarrow> sint (word_of_int k :: 32 word) = k"
  by (simp add: sint_sbintrunc' signed_take_bit_int_eq_self)

lemma sint_word_of_int_16:
  "- (2 ^ 15) \<le> k \<Longrightarrow> k < 2 ^ 15 \<Longrightarrow> sint (word_of_int k :: 16 word) = k"
  by (simp add: sint_sbintrunc' signed_take_bit_int_eq_self)

lemma sint_add_scast:
  assumes "0 \<le> sint (x :: 32 word)" "0 \<le> sint (c :: 16 word)" "sint x + sint c < 2 ^ 31"
  shows "sint (x + scast c) = sint x + sint c"
proof -
  have "(word_of_int (sint x + sint c) :: 32 word) = scast x + scast c"
    by (simp only: of_int_add of_int_sint)
  then have eq: "x + scast c = word_of_int (sint x + sint c)"
    by simp
  show ?thesis unfolding eq
    by (rule sint_word_of_int_32) (use assms in auto)
qed

lemma leaf_of_sentinel:
  assumes "sint (r :: 32 word) < 0" "- 32768 \<le> sint r"
  shows "sint (scast (ucast (- r - 1 :: 32 word) :: 16 word) :: 32 word) = - sint r - 1"
proof -
  have "(word_of_int (- sint r - 1) :: 32 word) = - scast r - 1"
    by (simp only: of_int_diff of_int_minus of_int_sint of_int_1)
  then have eq: "- r - 1 = (word_of_int (- sint r - 1) :: 32 word)"
    by simp
  have "ucast (word_of_int (- sint r - 1) :: 32 word) = (word_of_int (- sint r - 1) :: 16 word)"
    by transfer simp
  then have "sint (ucast (- r - 1 :: 32 word) :: 16 word) = - sint r - 1"
    unfolding eq using assms sint_word_of_int_16 [of "- sint r - 1"] by simp
  then show ?thesis by (simp add: sint_scast_16_32)
qed


lemma wf_nodesD:
  assumes "wf_nodes forest" "0 \<le> i" "i < sint (n_nodes forest)"
  shows "array_read (nodes forest) i = Some (nodes forest ! nat i)"
    and "wf_node forest i (nodes forest ! nat i)"
proof -
  from assms have "nat i \<in> {0 ..< nat (sint (n_nodes forest))}" by auto
  with assms(1) have "wf_node forest (int (nat i)) (nodes forest ! nat i)"
    unfolding wf_nodes_def by blast
  with assms(2) show "wf_node forest i (nodes forest ! nat i)" by simp
  from assms show "array_read (nodes forest) i = Some (nodes forest ! nat i)"
    by (auto simp: wf_nodes_def array_read_def)
qed

lemma predict_tree_loop_leaf:
  "sint node_idx < 0 \<Longrightarrow> predict_tree_loop forest features node_idx = Some node_idx"
  by (subst predict_tree_loop.simps) simp

lemma traverse_loop_spec_leaf:
  "node_idx < 0 \<Longrightarrow> traverse_loop_spec forest features node_idx = Some node_idx"
  by (subst traverse_loop_spec.simps) simp

lemma predict_tree_loop_wf:
  assumes wf: "wf_nodes forest" and fs: "sint (n_features forest) \<le> int (length features)"
    and lo: "0 \<le> sint node_idx" and hi: "sint node_idx < sint (n_nodes forest)"
  shows "\<exists>r. predict_tree_loop forest features node_idx = Some r
           \<and> traverse_loop_spec forest features (sint node_idx) = Some (sint r)
           \<and> sint r < 0 \<and> - 32768 \<le> sint r \<and> - sint r - 1 < sint (n_leaves forest)"
  using lo hi
proof (induction "nat (sint (n_nodes forest) - sint node_idx)" arbitrary: node_idx
    rule: less_induct)
  case less
  let ?node = "nodes forest ! nat (sint node_idx)"
  from wf_nodesD [OF wf less.prems]
  have rd: "array_read (nodes forest) (sint node_idx) = Some ?node"
    and wn: "wf_node forest (sint node_idx) ?node" by auto
  from wn fs obtain x where x: "array_read features (sint (feature ?node)) = Some x"
    by (auto simp: wf_node_def array_read_def)
  let ?child = "select_child ?node x"
  have child_eq: "?child = (if sint x < sint (node_value ?node) then left ?node else right ?node)"
    by (simp add: select_child_def)
  from wn have wc: "wf_child forest (sint node_idx) ?child"
    by (simp add: wf_node_def select_child_def)
  show ?case
  proof (cases "0 \<le> sint ?child")
    case True
    with wc have pos: "0 < sint ?child"
      and inb: "sint node_idx + sint ?child < sint (n_nodes forest)"
      by (auto simp: wf_child_def)
    from inb sint32_range [of "n_nodes forest"]
    have nov: "sint node_idx + sint ?child < 2 ^ 31" by simp
    have nxt: "sint (node_idx + scast ?child) = sint node_idx + sint ?child"
      by (rule sint_add_scast) (use less.prems True nov in auto)
    have "\<exists>r. predict_tree_loop forest features (node_idx + scast ?child) = Some r
           \<and> traverse_loop_spec forest features (sint (node_idx + scast ?child)) = Some (sint r)
           \<and> sint r < 0 \<and> - 32768 \<le> sint r \<and> - sint r - 1 < sint (n_leaves forest)"
      by (rule less.hyps) (use nxt pos inb less.prems in auto)
    then obtain r where r: "predict_tree_loop forest features (node_idx + scast ?child) = Some r"
      "traverse_loop_spec forest features (sint node_idx + sint ?child) = Some (sint r)"
      "sint r < 0" "- 32768 \<le> sint r" "- sint r - 1 < sint (n_leaves forest)"
      unfolding nxt by blast
    have "predict_tree_loop forest features node_idx = Some r"
      by (subst predict_tree_loop.simps) (use less.prems rd x True nov r(1) in simp)
    moreover have "traverse_loop_spec forest features (sint node_idx) = Some (sint r)"
      by (subst traverse_loop_spec.simps)
         (use less.prems rd x True r(2) in \<open>simp add: child_eq [symmetric]\<close>)
    ultimately show ?thesis using r by blast
  next
    case False
    then have neg: "sint ?child < 0" by simp
    with wc have lf: "- sint ?child - 1 < sint (n_leaves forest)"
      by (simp add: wf_child_def)
    let ?r = "scast ?child :: 32 word"
    have sr: "sint ?r = sint ?child" by (rule sint_scast_16_32)
    have "predict_tree_loop forest features node_idx = Some ?r"
      by (subst predict_tree_loop.simps)
         (use less.prems rd x False neg sr in \<open>simp add: predict_tree_loop_leaf\<close>)
    moreover have "traverse_loop_spec forest features (sint node_idx) = Some (sint ?r)"
      by (subst traverse_loop_spec.simps)
         (use less.prems rd x False neg sr in
            \<open>simp add: child_eq [symmetric] traverse_loop_spec_leaf\<close>)
    ultimately show ?thesis using neg lf sr sint16_range [of ?child] by auto
  qed
qed

lemma predict_tree_total:
  assumes "wf_nodes forest" "sint (n_features forest) \<le> int (length features)"
    "0 \<le> sint tree_root" "sint tree_root < sint (n_nodes forest)"
  shows "\<exists>leaf. eml_trees_predict_tree forest tree_root features features_length = Some leaf
           \<and> traverse_spec forest (sint tree_root) features = Some (sint leaf)
           \<and> 0 \<le> sint leaf \<and> sint leaf < sint (n_leaves forest)"
proof -
  from predict_tree_loop_wf [OF assms]
  obtain r where r: "predict_tree_loop forest features tree_root = Some r"
      "traverse_loop_spec forest features (sint tree_root) = Some (sint r)"
      "sint r < 0" "- 32768 \<le> sint r" "- sint r - 1 < sint (n_leaves forest)"
    by blast
  let ?leaf = "scast (ucast (- r - 1 :: 32 word) :: 16 word) :: 32 word"
  have lf: "sint ?leaf = - sint r - 1"
    by (rule leaf_of_sentinel) (use r in auto)
  have "eml_trees_predict_tree forest tree_root features features_length = Some ?leaf"
    using r by (simp add: eml_trees_predict_tree_def)
  moreover have "traverse_spec forest (sint tree_root) features = Some (sint ?leaf)"
    using r lf by (simp add: traverse_spec_def)
  ultimately show ?thesis
    using r lf by (intro exI [of _ ?leaf]) simp
qed

text \<open>
  C2. For a well-formed model (node array in bounds and without cycle, feature vector of at
  least \<open>n_features\<close> elements, root inside the node array) \<open>eml_trees_predict_tree\<close> returns,
  and its result is the leaf that the traversal of the specification computes: start at
  \<open>tree_root\<close>; while \<open>node_idx \<ge> 0\<close> read the node, take the left child if
  \<open>features[node.feature] < node.threshold\<close> and the right child otherwise, add a child
  \<open>\<ge> 0\<close> to \<open>node_idx\<close> and otherwise set \<open>node_idx\<close> to the child; return \<open>-node_idx - 1\<close>.
  The leaf lies in \<open>[0, n_leaves)\<close>. For the single node \<open>{feature=0, threshold=10,
  left=leaf(0), right=leaf(1)}\<close> the features \<open>[5]\<close> give leaf 0 and \<open>[15]\<close> give leaf 1.
\<close>

theorem predict_tree_refines_spec:
  "(wf_nodes forest \<and> sint (n_features forest) \<le> int (length features)
      \<and> 0 \<le> sint tree_root \<and> sint tree_root < sint (n_nodes forest)
    \<longrightarrow> (\<exists>leaf. eml_trees_predict_tree forest tree_root features features_length = Some leaf
           \<and> traverse_spec forest (sint tree_root) features = Some (sint leaf)
           \<and> 0 \<le> sint leaf \<and> sint leaf < sint (n_leaves forest)))
   \<and> eml_trees_predict_tree single_node_forest 0 [5] 1 = Some 0
   \<and> eml_trees_predict_tree single_node_forest 0 [15] 1 = Some 1"
proof (intro conjI impI)
  assume "wf_nodes forest \<and> sint (n_features forest) \<le> int (length features)
      \<and> 0 \<le> sint tree_root \<and> sint tree_root < sint (n_nodes forest)"
  then show "\<exists>leaf. eml_trees_predict_tree forest tree_root features features_length = Some leaf
           \<and> traverse_spec forest (sint tree_root) features = Some (sint leaf)
           \<and> 0 \<le> sint leaf \<and> sint leaf < sint (n_leaves forest)"
    using predict_tree_total [of forest features tree_root features_length] by blast
next
  show "eml_trees_predict_tree single_node_forest 0 [5] 1 = Some 0" by code_simp
next
  show "eml_trees_predict_tree single_node_forest 0 [15] 1 = Some 1" by code_simp
qed

theorem predict_tree_refines_spec_witness:
  "wf_nodes single_node_forest
   \<and> eml_trees_predict_tree single_node_forest 0 [- 3] 1 = Some 0
   \<and> traverse_spec single_node_forest 0 [- 3] = Some 0"
proof -
  have w: "wf_nodes single_node_forest" by code_simp
  have e: "eml_trees_predict_tree single_node_forest 0 [- 3] 1 = Some 0" by code_simp
  from predict_tree_refines_spec [of single_node_forest "[- 3]" 0 1] w e
  show ?thesis by (simp add: single_node_forest_def)
qed

subsection \<open>Regression\<close>

lemma tree_value_SomeD:
  assumes "tree_value forest fs fl i = Some v"
  shows "\<exists>root leaf b0 b1 b2 b3.
           array_read (tree_roots forest) i = Some root
           \<and> eml_trees_predict_tree forest root fs fl = Some leaf
           \<and> array_read (leaves forest) (sint leaf * 4) = Some b0
           \<and> array_read (leaves forest) (sint leaf * 4 + 1) = Some b1
           \<and> array_read (leaves forest) (sint leaf * 4 + 2) = Some b2
           \<and> array_read (leaves forest) (sint leaf * 4 + 3) = Some b3
           \<and> v = float_of_bits (ucast b0 + push_bit 8 (ucast b1) + push_bit 16 (ucast b2)
                                   + push_bit 24 (ucast b3))"
  using assms
  by (auto simp: tree_value_def read_float_def bind_eq_Some_conv Let_def)

lemma tree_value_total:
  assumes wf: "wf_nodes forest" "wf_roots forest"
    and lv: "4 * sint (n_leaves forest) \<le> int (length (leaves forest))"
    and fs: "sint (n_features forest) \<le> int (length fs)"
    and i: "0 \<le> i" "i < sint (n_trees forest)"
  shows "\<exists>v. tree_value forest fs fl i = Some v"
proof -
  from wf(2) i have rd: "array_read (tree_roots forest) i = Some (tree_roots forest ! nat i)"
    by (auto simp: wf_roots_def array_read_def)
  from i have "nat i \<in> {0 ..< nat (sint (n_trees forest))}" by auto
  with wf(2) have root: "0 \<le> sint (tree_roots forest ! nat i)"
    "sint (tree_roots forest ! nat i) < sint (n_nodes forest)"
    unfolding wf_roots_def by blast+
  from predict_tree_total [OF wf(1) fs root, of fl]
  obtain leaf where leaf: "eml_trees_predict_tree forest (tree_roots forest ! nat i) fs fl = Some leaf"
    "0 \<le> sint leaf" "sint leaf < sint (n_leaves forest)" by blast
  from leaf(2,3) lv have "0 \<le> sint leaf * 4" "sint leaf * 4 + 3 < int (length (leaves forest))"
    by auto
  then have "\<exists>v. read_float (leaves forest) (sint leaf * 4) = Some v"
    by (simp add: read_float_def array_read_def)
  then show ?thesis
    by (simp add: tree_value_def rd leaf(1))
qed

lemma regress_sum_total:
  assumes wf: "wf_nodes forest" "wf_roots forest"
    and lv: "4 * sint (n_leaves forest) \<le> int (length (leaves forest))"
    and fs: "sint (n_features forest) \<le> int (length fs)"
  shows "\<exists>s. regress_sum forest fs fl = Some s"
proof -
  let ?body = "\<lambda>i acc. tree_value forest fs fl i \<bind> (\<lambda>val. Some (fp_add binary32 acc val))"
  have "\<exists>s'. for_loop (nat (sint (n_trees forest))) 0 ?body float_zero = Some s' \<and> True"
  proof (rule for_loop_rule [where I = "\<lambda>i s. True"])
    show True ..
  next
    fix i s
    assume "0 \<le> i" "i < 0 + int (nat (sint (n_trees forest)))"
    then have "0 \<le> i" "i < sint (n_trees forest)" by linarith+
    from tree_value_total [OF wf lv fs this, of fl]
    show "\<exists>s'. ?body i s = Some s' \<and> True" by auto
  qed
  then show ?thesis by (simp add: regress_sum_def)
qed

text \<open>
  C7. When \<open>eml_trees_regress\<close> succeeds, the output pointer is not null and its first
  element is the mean of the \<open>n_trees\<close> leaf values: tree \<open>j\<close> is traversed from
  \<open>tree_roots[j]\<close> by \<open>eml_trees_predict_tree\<close>, the four bytes of the leaf buffer at four
  times its leaf number are read as a \<open>float\<close>, the values are added in the order of the
  trees starting from zero, and the sum is divided by \<open>n_trees\<close>. Every other element of the
  buffer is unchanged. For a well-formed model with \<open>leaf_bits = 32\<close> whose leaf buffer holds
  four bytes for each of the \<open>n_leaves\<close> leaves, a feature vector of at least \<open>n_features\<close>
  elements, \<open>out_length \<ge> 1\<close> and a buffer that is not empty, the call does succeed.
\<close>

theorem regress_writes_mean_to_first:
  "(eml_trees_regress forest features features_length out out_length = Some (EmlOk, out') \<longrightarrow>
      (\<exists>buf vals.
           out = Some buf \<and> buf \<noteq> []
           \<and> length vals = nat (sint (n_trees forest))
           \<and> (\<forall>j<length vals. \<exists>root leaf b0 b1 b2 b3.
                 array_read (tree_roots forest) (int j) = Some root
                 \<and> eml_trees_predict_tree forest root (pointee features) features_length = Some leaf
                 \<and> array_read (leaves forest) (sint leaf * 4) = Some b0
                 \<and> array_read (leaves forest) (sint leaf * 4 + 1) = Some b1
                 \<and> array_read (leaves forest) (sint leaf * 4 + 2) = Some b2
                 \<and> array_read (leaves forest) (sint leaf * 4 + 3) = Some b3
                 \<and> vals ! j = float_of_bits (ucast b0 + push_bit 8 (ucast b1)
                                               + push_bit 16 (ucast b2) + push_bit 24 (ucast b3)))
           \<and> out' = Some (buf[0 := fp_div binary32 (foldl (fp_add binary32) float_zero vals)
                                       (fp_of_int binary32 (sint (n_trees forest)))])
           \<and> (\<forall>i. 0 < i \<and> i < length buf \<longrightarrow> pointee out' ! i = buf ! i)
           \<and> length (pointee out') = length buf))
   \<and> (wf_nodes forest \<and> wf_roots forest \<and> sint (leaf_bits forest) = 32
        \<and> 4 * sint (n_leaves forest) \<le> int (length (leaves forest))
        \<and> sint (n_features forest) \<le> int (length fs)
        \<and> 1 \<le> sint out_length \<and> buf0 \<noteq> [] \<longrightarrow>
      (\<exists>res. eml_trees_regress forest (Some fs) features_length (Some buf0) out_length
                = Some (EmlOk, Some res)))"
proof (intro conjI impI)
  assume ok: "eml_trees_regress forest features features_length out out_length = Some (EmlOk, out')"
  then obtain leaf_sum buf' where
    leaf_sum: "regress_sum forest (pointee features) features_length = Some leaf_sum"
    and wr: "array_write (pointee out) 0
               (fp_div binary32 leaf_sum (fp_of_int binary32 (sint (n_trees forest)))) = Some buf'"
    and out': "out' = Some buf'"
    by (auto simp: eml_trees_regress_def bind_eq_Some_conv split: if_splits)
  from wr have ne: "pointee out \<noteq> []"
    and buf': "buf' = (pointee out)[0 := fp_div binary32 leaf_sum
                                           (fp_of_int binary32 (sint (n_trees forest)))]"
    by (auto simp: array_write_def split: if_splits)
  from ne obtain buf where buf: "out = Some buf" "buf \<noteq> []"
    by (cases out) (auto simp: pointee_def)
  from regress_sum_fold [OF leaf_sum] obtain vals where vals:
    "length vals = nat (sint (n_trees forest))"
    "\<forall>j<length vals.
       tree_value forest (pointee features) features_length (int j) = Some (vals ! j)"
    "leaf_sum = foldl (fp_add binary32) float_zero vals"
    by blast
  have dec: "\<forall>j<length vals. \<exists>root leaf b0 b1 b2 b3.
                 array_read (tree_roots forest) (int j) = Some root
                 \<and> eml_trees_predict_tree forest root (pointee features) features_length = Some leaf
                 \<and> array_read (leaves forest) (sint leaf * 4) = Some b0
                 \<and> array_read (leaves forest) (sint leaf * 4 + 1) = Some b1
                 \<and> array_read (leaves forest) (sint leaf * 4 + 2) = Some b2
                 \<and> array_read (leaves forest) (sint leaf * 4 + 3) = Some b3
                 \<and> vals ! j = float_of_bits (ucast b0 + push_bit 8 (ucast b1)
                                               + push_bit 16 (ucast b2) + push_bit 24 (ucast b3))"
    using vals(2) tree_value_SomeD by blast
  have frame: "\<forall>i. 0 < i \<and> i < length buf \<longrightarrow> pointee out' ! i = buf ! i"
    "length (pointee out') = length buf"
    using buf buf' out' by (simp_all add: pointee_def)
  have upd: "out' = Some (buf[0 := fp_div binary32 (foldl (fp_add binary32) float_zero vals)
                                       (fp_of_int binary32 (sint (n_trees forest)))])"
    using buf buf' out' vals(3) by (simp add: pointee_def)
  from buf vals(1) dec upd frame
  show "\<exists>buf vals.
           out = Some buf \<and> buf \<noteq> []
           \<and> length vals = nat (sint (n_trees forest))
           \<and> (\<forall>j<length vals. \<exists>root leaf b0 b1 b2 b3.
                 array_read (tree_roots forest) (int j) = Some root
                 \<and> eml_trees_predict_tree forest root (pointee features) features_length = Some leaf
                 \<and> array_read (leaves forest) (sint leaf * 4) = Some b0
                 \<and> array_read (leaves forest) (sint leaf * 4 + 1) = Some b1
                 \<and> array_read (leaves forest) (sint leaf * 4 + 2) = Some b2
                 \<and> array_read (leaves forest) (sint leaf * 4 + 3) = Some b3
                 \<and> vals ! j = float_of_bits (ucast b0 + push_bit 8 (ucast b1)
                                               + push_bit 16 (ucast b2) + push_bit 24 (ucast b3)))
           \<and> out' = Some (buf[0 := fp_div binary32 (foldl (fp_add binary32) float_zero vals)
                                       (fp_of_int binary32 (sint (n_trees forest)))])
           \<and> (\<forall>i. 0 < i \<and> i < length buf \<longrightarrow> pointee out' ! i = buf ! i)
           \<and> length (pointee out') = length buf"
    by blast
next
  assume a: "wf_nodes forest \<and> wf_roots forest \<and> sint (leaf_bits forest) = 32
        \<and> 4 * sint (n_leaves forest) \<le> int (length (leaves forest))
        \<and> sint (n_features forest) \<le> int (length fs)
        \<and> 1 \<le> sint out_length \<and> buf0 \<noteq> []"
  then obtain s where s: "regress_sum forest fs features_length = Some s"
    using regress_sum_total [of forest fs features_length] by blast
  from a show "\<exists>res. eml_trees_regress forest (Some fs) features_length (Some buf0) out_length
                = Some (EmlOk, Some res)"
    by (simp add: eml_trees_regress_def pointee_def s array_write_def)
qed

theorem regress_writes_mean_to_first_witness:
  "wf_nodes regress3_forest \<and> wf_roots regress3_forest
   \<and> sint (leaf_bits regress3_forest) = 32
   \<and> sint (n_trees regress3_forest) = 3
   \<and> eml_trees_regress regress3_forest (Some [5]) 1 (Some [NaN, Finite True 7]) 2
       = Some (EmlOk, Some [Finite False (13981013 / 8388608), Finite True 7])"
proof -
  have wn: "wf_nodes regress3_forest" by code_simp
  have wr: "wf_roots regress3_forest" by code_simp
  have lb: "sint (leaf_bits regress3_forest) = 32" by (simp add: regress3_forest_def)
  have nt: "sint (n_trees regress3_forest) = 3" by (simp add: regress3_forest_def)
  have h: "eml_trees_regress regress3_forest (Some [5]) 1 (Some [NaN, Finite True 7]) 2
       = Some (EmlOk, Some [Finite False (13981013 / 8388608), Finite True 7])"
    by code_simp
  show ?thesis
    using regress_writes_mean_to_first [where forest = regress3_forest
        and features = "Some [5]" and features_length = 1
        and out = "Some [NaN, Finite True 7]" and out_length = 2
        and out' = "Some [Finite False (13981013 / 8388608), Finite True 7]"
        and fs = "[5]" and ?buf0.0 = "[NaN, Finite True 7]"]
      wn wr lb nt h
    by - (intro conjI; assumption)
qed

text \<open>
  C8. For a model with \<open>leaf_bits = 32\<close>, two calls of \<open>eml_trees_regress\<close> with the same
  model, features and lengths end with the same status, and when they succeed with the same
  \<open>out[0]\<close>, whatever the two output buffers held before the calls.
\<close>

theorem regress_deterministic:
  assumes "sint (leaf_bits forest) = 32" and "buf1 \<noteq> []" and "buf2 \<noteq> []"
  shows "map_option fst (eml_trees_regress forest features features_length (Some buf1) out_length)
           = map_option fst (eml_trees_regress forest features features_length (Some buf2) out_length)
         \<and> (\<forall>o1 o2. eml_trees_regress forest features features_length (Some buf1) out_length
                        = Some (EmlOk, o1)
                    \<and> eml_trees_regress forest features features_length (Some buf2) out_length
                        = Some (EmlOk, o2)
                    \<longrightarrow> array_read (pointee o1) 0 = array_read (pointee o2) 0)"
  using assms
  by (cases "regress_sum forest (pointee features) features_length")
     (auto simp: eml_trees_regress_def pointee_def array_write_def array_read_def
           bind_eq_Some_conv split: if_splits)

theorem regress_deterministic_witness:
  "sint (leaf_bits regress_forest) = 32
   \<and> eml_trees_regress regress_forest (Some [5]) 1 (Some [NaN]) 1
       = Some (EmlOk, Some [Finite False 1])
   \<and> eml_trees_regress regress_forest (Some [5]) 1 (Some [Finite True 7, NaN]) 1
       = Some (EmlOk, Some [Finite False 1, NaN])"
proof -
  have a: "sint (leaf_bits regress_forest) = 32" by (simp add: regress_forest_def)
  have b: "eml_trees_regress regress_forest (Some [5]) 1 (Some [NaN]) 1
       = Some (EmlOk, Some [Finite False 1])" by code_simp
  have c: "eml_trees_regress regress_forest (Some [5]) 1 (Some [Finite True 7, NaN]) 1
       = Some (EmlOk, Some [Finite False 1, NaN])" by code_simp
  from regress_deterministic [OF a, of "[NaN]" "[Finite True 7, NaN]" "Some [5]" 1 1] a b c
  show ?thesis by simp
qed

text \<open>
  The claim C5 as it is stated fails: a model with \<open>leaf_bits \<noteq> 32\<close> and an \<open>out_length\<close>
  below 1 is rejected with \<open>EmlSizeMismatch\<close>, and a model with \<open>leaf_bits = 32\<close> and no tree
  makes \<open>eml_trees_regress\<close> succeed with the quotient 0/0, a NaN, which
  \<open>eml_trees_regress1\<close> returns.
\<close>

theorem regress_unsupported_counterexample:
  "sint (leaf_bits cyclic_forest) \<noteq> 32
   \<and> eml_trees_regress cyclic_forest (Some [5]) 1 (Some [Finite True 7]) 0
       = Some (EmlSizeMismatch, Some [Finite True 7])
   \<and> eml_trees_regress (regress_forest\<lparr>n_trees := 0\<rparr>) (Some [5]) 1 (Some [Finite True 7]) 1
       = Some (EmlOk, Some [NaN])
   \<and> eml_trees_regress1 (regress_forest\<lparr>n_trees := 0\<rparr>) (Some [5]) 1 (Finite True 7) = Some NaN"
  by code_simp

text \<open>
  C5, amended. \<open>eml_trees_regress\<close> returns \<open>EmlSizeMismatch\<close> when \<open>out_length < 1\<close>;
  otherwise it returns \<open>EmlUnsupported\<close> for every model with \<open>leaf_bits \<noteq> 32\<close>, and it
  succeeds only when \<open>leaf_bits = 32\<close>. The call that \<open>eml_trees_regress1\<close> makes (with
  \<open>out_length = 1\<close>) fails exactly when \<open>leaf_bits \<noteq> 32\<close>; when it succeeds
  \<open>eml_trees_regress1\<close> returns \<open>out[0]\<close>; and \<open>eml_trees_regress1\<close> returns NaN exactly
  when that call fails or the mean it wrote to \<open>out[0]\<close> is itself a NaN.
\<close>

theorem regress_unsupported:
  "(sint out_length < 1 \<longrightarrow>
      eml_trees_regress forest features features_length out out_length
        = Some (EmlSizeMismatch, out))
   \<and> (1 \<le> sint out_length \<and> sint (leaf_bits forest) \<noteq> 32 \<longrightarrow>
      eml_trees_regress forest features features_length out out_length
        = Some (EmlUnsupported, out))
   \<and> (eml_trees_regress forest features features_length out out_length = Some (EmlOk, out')
        \<longrightarrow> sint (leaf_bits forest) = 32)
   \<and> (sint (leaf_bits forest) \<noteq> 32 \<longrightarrow>
        eml_trees_regress1 forest features features_length uninit = Some NaN)
   \<and> (\<forall>err buf. eml_trees_regress forest features features_length (Some [uninit]) 1
                    = Some (err, buf) \<longrightarrow>
          (err \<noteq> EmlOk \<longleftrightarrow> sint (leaf_bits forest) \<noteq> 32)
          \<and> (err = EmlOk \<longrightarrow>
                eml_trees_regress1 forest features features_length uninit
                  = array_read (pointee buf) 0)
          \<and> (eml_trees_regress1 forest features features_length uninit = Some NaN
                \<longleftrightarrow> err \<noteq> EmlOk \<or> array_read (pointee buf) 0 = Some NaN))"
  by (auto simp: eml_trees_regress_def eml_trees_regress1_def bind_eq_Some_conv
      split: if_splits)

theorem regress_unsupported_witness:
  "sint (leaf_bits cyclic_forest) = 0
   \<and> eml_trees_regress cyclic_forest (Some [5]) 1 (Some [Finite True 7]) 1
       = Some (EmlUnsupported, Some [Finite True 7])
   \<and> eml_trees_regress cyclic_forest (Some [5]) 1 (Some [Finite True 7]) 0
       = Some (EmlSizeMismatch, Some [Finite True 7])
   \<and> eml_trees_regress1 cyclic_forest (Some [5]) 1 (Finite True 7) = Some NaN
   \<and> eml_trees_regress regress_forest (Some [5]) 1 (Some [Finite True 7]) 1
       = Some (EmlOk, Some [Finite False 1])
   \<and> eml_trees_regress1 regress_forest (Some [5]) 1 (Finite True 7) = Some (Finite False 1)"
proof -
  have a: "sint (leaf_bits cyclic_forest) = 0" by (simp add: cyclic_forest_def)
  have b: "eml_trees_regress cyclic_forest (Some [5]) 1 (Some [Finite True 7]) 1
       = Some (EmlUnsupported, Some [Finite True 7])" by code_simp
  have c: "eml_trees_regress cyclic_forest (Some [5]) 1 (Some [Finite True 7]) 0
       = Some (EmlSizeMismatch, Some [Finite True 7])" by code_simp
  have d: "eml_trees_regress1 cyclic_forest (Some [5]) 1 (Finite True 7) = Some NaN"
    by code_simp
  have e: "eml_trees_regress regress_forest (Some [5]) 1 (Some [Finite True 7]) 1
       = Some (EmlOk, Some [Finite False 1])" by code_simp
  have f: "eml_trees_regress1 regress_forest (Some [5]) 1 (Finite True 7) = Some (Finite False 1)"
    by code_simp
  show ?thesis
    using regress_unsupported [where forest = cyclic_forest and features = "Some [5]"
        and features_length = 1 and out = "Some [Finite True 7]" and out_length = 1
        and uninit = "Finite True 7"]
      regress_unsupported [where forest = regress_forest and features = "Some [5]"
        and features_length = 1 and out = "Some [Finite True 7]" and out_length = 1
        and uninit = "Finite True 7" and out' = "Some [Finite False 1]"]
      a b c d e f
    by - (intro conjI; assumption)
qed

subsection \<open>Selection of the class\<close>

lemma fp_gt_irrefl: "\<not> fp_gt x x"
  by (cases x) auto

lemma fp_gt_trans: "fp_gt a b \<Longrightarrow> fp_gt b c \<Longrightarrow> fp_gt a c"
  by (cases a; cases b; cases c) (auto split: if_splits)

lemma fp_gt_above: "fp_gt x v \<Longrightarrow> \<not> fp_gt y v \<Longrightarrow> is_nan y \<or> fp_gt x y"
  by (cases x; cases v; cases y) (auto split: if_splits)

lemma for_loop_preserves:
  assumes "for_loop k i body s = Some s'" and "P s"
    and "\<And>i s s'. P s \<Longrightarrow> body i s = Some s' \<Longrightarrow> P s'"
  shows "P s'"
  using assms(1,2)
proof (induction k arbitrary: i s)
  case 0
  then show ?case by simp
next
  case (Suc k)
  from Suc.prems(1) obtain s1 where s1: "body i s = Some s1"
    and rest: "for_loop k (i + 1) body s1 = Some s'"
    by (auto simp: bind_eq_Some_conv)
  from assms(3) [OF Suc.prems(2) s1] have "P s1" .
  from Suc.IH [OF rest this] show ?case .
qed

lemma array_write_length: "array_write xs i v = Some ys \<Longrightarrow> length ys = length xs"
  by (auto simp: array_write_def split: if_splits)

lemma zero_fill_length: "zero_fill out n = Some out' \<Longrightarrow> length out' = length out"
  unfolding zero_fill_def
  by (erule for_loop_preserves [where P = "\<lambda>s. length s = length out"])
     (auto dest: array_write_length)

lemma majority_votes_length:
  "majority_votes self fs fl out = Some out' \<Longrightarrow> length out' = length out"
  unfolding majority_votes_def
  by (erule for_loop_preserves [where P = "\<lambda>s. length s = length out"])
     (auto simp: majority_vote_def bind_eq_Some_conv Let_def dest: array_write_length)

lemma soft_vote_class_length:
  "soft_vote_class self off c out = Some out' \<Longrightarrow> length out' = length out"
  by (auto simp: soft_vote_class_def bind_eq_Some_conv Let_def dest: array_write_length)

lemma soft_vote_length:
  assumes "soft_vote self fs fl i out = Some out'"
  shows "length out' = length out"
proof -
  from assms obtain off where
    "for_loop (nat (sint (n_classes self))) 0 (soft_vote_class self off) out = Some out'"
    by (auto simp: soft_vote_def bind_eq_Some_conv Let_def split: if_splits)
  then show ?thesis
    by (rule for_loop_preserves [where P = "\<lambda>s. length s = length out"])
       (auto dest: soft_vote_class_length)
qed

lemma soft_votes_length:
  "soft_votes self fs fl out = Some out' \<Longrightarrow> length out' = length out"
  unfolding soft_votes_def
  by (erule for_loop_preserves [where P = "\<lambda>s. length s = length out"])
     (auto dest: soft_vote_length)

lemma compute_mean_length:
  "compute_mean self n out = Some out' \<Longrightarrow> length out' = length out"
  unfolding compute_mean_def
  by (erule for_loop_preserves [where P = "\<lambda>s. length s = length out"])
     (auto simp: bind_eq_Some_conv dest: array_write_length)

lemma predict_proba_run_length:
  "predict_proba_run self fs fl out n = Some (err, out') \<Longrightarrow> length out' = length out"
  by (auto simp: predict_proba_run_def bind_eq_Some_conv split: if_splits
      dest!: zero_fill_length majority_votes_length soft_votes_length compute_mean_length)

lemma predict_proba_length:
  "eml_trees_predict_proba self features fl (Some out) n = Some (EmlOk, Some out')
     \<Longrightarrow> length out' = length out"
  by (auto simp: eml_trees_predict_proba_def EML_PRECONDITION_def bind_eq_Some_conv
      split: if_splits dest: predict_proba_run_length)

lemma most_voted_result:
  assumes "n \<le> int (length votes)"
  shows "\<exists>r v. most_voted votes n = Some (r, v)
      \<and> ((r = - 1 \<and> (\<forall>i<nat n. \<not> fp_gt (votes ! i) float_zero))
         \<or> (0 \<le> r \<and> r < n \<and> fp_gt (votes ! nat r) float_zero
             \<and> (\<forall>i<nat n. \<not> fp_gt (votes ! i) (votes ! nat r))
             \<and> (\<forall>i<nat r. is_nan (votes ! i) \<or> fp_gt (votes ! nat r) (votes ! i))))"
proof -
  let ?I = "\<lambda>i (s :: int \<times> float).
      (fst s = - 1 \<and> snd s = float_zero \<and> (\<forall>j<nat i. \<not> fp_gt (votes ! j) float_zero))
      \<or> (0 \<le> fst s \<and> fst s < i \<and> snd s = votes ! nat (fst s) \<and> fp_gt (snd s) float_zero
          \<and> (\<forall>j<nat i. \<not> fp_gt (votes ! j) (snd s))
          \<and> (\<forall>j<nat (fst s). is_nan (votes ! j) \<or> fp_gt (snd s) (votes ! j)))"
  let ?body = "\<lambda>i (most_voted_class, most_voted_value).
      array_read votes i \<bind> (\<lambda>v. Some (if fp_gt v most_voted_value then (i, v)
                else (most_voted_class, most_voted_value)))"
  have "\<exists>s'. for_loop (nat n) 0 ?body (- 1, float_zero) = Some s' \<and> ?I (0 + int (nat n)) s'"
  proof (rule for_loop_rule [where I = ?I])
    show "?I 0 (- 1, float_zero)" by simp
  next
    fix i s
    assume i: "0 \<le> i" "i < 0 + int (nat n)" and inv: "?I i s"
    obtain c v where s: "s = (c, v)" by (cases s)
    from i assms have "i < int (length votes)" by linarith
    with i have rd: "array_read votes i = Some (votes ! nat i)"
      by (simp add: array_read_def)
    let ?x = "votes ! nat i"
    have less_Suc: "\<And>j. j < nat (i + 1) \<longleftrightarrow> j < nat i \<or> j = nat i"
      using i by auto
    show "\<exists>s'. ?body i s = Some s' \<and> ?I (i + 1) s'"
    proof (cases "fp_gt ?x v")
      case True
      have pos: "fp_gt ?x float_zero"
        using inv True s by (auto dest: fp_gt_trans)
      have a: "\<forall>j<nat (i + 1). \<not> fp_gt (votes ! j) ?x"
        using inv True s by (auto simp: less_Suc fp_gt_irrefl dest: fp_gt_trans)
      have b: "\<forall>j<nat i. is_nan (votes ! j) \<or> fp_gt ?x (votes ! j)"
        using inv True s by (auto dest: fp_gt_above)
      from True pos a b i show ?thesis
        by (simp add: s rd)
    next
      case False
      with inv i show ?thesis
        by (auto simp: s rd less_Suc)
    qed
  qed
  then obtain r v where rv: "most_voted votes n = Some (r, v)" and inv: "?I (int (nat n)) (r, v)"
    by (auto simp: most_voted_def)
  show ?thesis
  proof (cases "0 \<le> n")
    case True
    with inv rv show ?thesis by auto
  next
    case False
    with inv rv show ?thesis by auto
  qed
qed

text \<open>
  C3. When its checks pass and \<open>eml_trees_predict_proba\<close> succeeds with the scores \<open>votes\<close>,
  \<open>eml_trees_predict\<close> returns the result of a left-to-right scan with a strict \<open>>\<close> that
  starts from the maximum 0: either \<open>-1\<close>, and then no score is above zero; or a class \<open>r\<close>
  whose score is above zero, such that no class has a greater score and every class before
  \<open>r\<close> has a smaller score (or a NaN, which compares with nothing): the first of the classes
  with the greatest score. A score vector of zeros gives \<open>-1\<close>, no class.
\<close>

theorem predict_selects_first_strict_maximum:
  assumes "features_length = n_features forest" and "sint (n_classes forest) \<le> 30"
    and "eml_trees_predict_proba forest features features_length
           (Some (replicate 30 float_zero)) (scast (n_classes forest)) = Some (EmlOk, Some votes)"
  shows "\<exists>r. eml_trees_predict forest features features_length = Some (word_of_int r)
      \<and> ((r = - 1 \<and> (\<forall>i<nat (sint (n_classes forest)). \<not> fp_gt (votes ! i) float_zero))
         \<or> (0 \<le> r \<and> r < sint (n_classes forest) \<and> fp_gt (votes ! nat r) float_zero
             \<and> (\<forall>i<nat (sint (n_classes forest)). \<not> fp_gt (votes ! i) (votes ! nat r))
             \<and> (\<forall>i<nat r. is_nan (votes ! i) \<or> fp_gt (votes ! nat r) (votes ! i))))
      \<and> ((\<forall>i<nat (sint (n_classes forest)). votes ! i = float_zero) \<longrightarrow> r = - 1)"
proof -
  from predict_proba_length [OF assms(3)] have len: "length votes = 30" by simp
  with assms(2) have "sint (n_classes forest) \<le> int (length votes)" by simp
  from most_voted_result [OF this] obtain r v where
    mv: "most_voted votes (sint (n_classes forest)) = Some (r, v)"
    and sel: "(r = - 1 \<and> (\<forall>i<nat (sint (n_classes forest)). \<not> fp_gt (votes ! i) float_zero))
         \<or> (0 \<le> r \<and> r < sint (n_classes forest) \<and> fp_gt (votes ! nat r) float_zero
             \<and> (\<forall>i<nat (sint (n_classes forest)). \<not> fp_gt (votes ! i) (votes ! nat r))
             \<and> (\<forall>i<nat r. is_nan (votes ! i) \<or> fp_gt (votes ! nat r) (votes ! i)))"
    by blast
  have res: "eml_trees_predict forest features features_length = Some (word_of_int r)"
    using assms mv by (simp add: eml_trees_predict_def EMTREES_MAX_CLASSES_def)
  have zero: "(\<forall>i<nat (sint (n_classes forest)). votes ! i = float_zero) \<longrightarrow> r = - 1"
  proof
    assume z: "\<forall>i<nat (sint (n_classes forest)). votes ! i = float_zero"
    show "r = - 1"
    proof (rule ccontr)
      assume "r \<noteq> - 1"
      with sel have "0 \<le> r" "r < sint (n_classes forest)" "fp_gt (votes ! nat r) float_zero"
        by auto
      moreover from this z have "votes ! nat r = float_zero" by auto
      ultimately show False by (simp add: fp_gt_irrefl)
    qed
  qed
  from res sel zero show ?thesis by blast
qed

theorem predict_selects_first_strict_maximum_witness:
  "n_features (majority_forest\<lparr>n_trees := 2\<rparr>) = 1
   \<and> sint (n_classes (majority_forest\<lparr>n_trees := 2\<rparr>)) = 2
   \<and> eml_trees_predict_proba (majority_forest\<lparr>n_trees := 2\<rparr>) (Some [5]) 1
        (Some (replicate 30 float_zero)) 2
      = Some (EmlOk, Some (Finite False (1 / 2) # Finite False (1 / 2) # replicate 28 float_zero))
   \<and> eml_trees_predict (majority_forest\<lparr>n_trees := 2\<rparr>) (Some [5]) 1 = Some 0"
proof -
  let ?m = "majority_forest\<lparr>n_trees := 2\<rparr>"
  have a: "(1 :: int8_t) = n_features ?m" by (simp add: majority_forest_def)
  have a': "n_features ?m = 1" by (simp add: majority_forest_def)
  have b: "sint (n_classes ?m) \<le> 30" by (simp add: majority_forest_def)
  have b': "sint (n_classes ?m) = 2" by (simp add: majority_forest_def)
  have c2: "scast (n_classes ?m) = (2 :: int32_t)" by (simp add: majority_forest_def)
  have c: "eml_trees_predict_proba ?m (Some [5]) 1 (Some (replicate 30 float_zero)) 2
      = Some (EmlOk, Some (Finite False (1 / 2) # Finite False (1 / 2) # replicate 28 float_zero))"
    by code_simp
  have c': "eml_trees_predict_proba ?m (Some [5]) 1 (Some (replicate 30 float_zero))
        (scast (n_classes ?m))
      = Some (EmlOk, Some (Finite False (1 / 2) # Finite False (1 / 2) # replicate 28 float_zero))"
    by (simp only: c2 c)
  have d: "eml_trees_predict ?m (Some [5]) 1 = Some 0" by code_simp
  show ?thesis
    using predict_selects_first_strict_maximum [OF a b c'] a' b' c d
    by - (intro conjI; assumption)
qed

subsection \<open>Majority vote\<close>

lemma sum_list_update_Suc:
  "c < length cs \<Longrightarrow> sum_list (cs[c := Suc (cs ! c)]) = Suc (sum_list cs)"
  for cs :: "nat list"
proof (induction cs arbitrary: c)
  case Nil
  then show ?case by simp
next
  case (Cons x xs)
  then show ?case by (cases c) auto
qed

lemma nth_le_sum_list: "c < length cs \<Longrightarrow> cs ! c \<le> sum_list cs" for cs :: "nat list"
proof (induction cs arbitrary: c)
  case Nil
  then show ?case by simp
next
  case (Cons x xs)
  then show ?case by (cases c) (auto intro: trans_le_add2)
qed

lemma for_loop_add:
  "for_loop (a + b) i body s = for_loop a i body s \<bind> for_loop b (i + int a) body"
proof (induction a arbitrary: i s)
  case 0
  then show ?case by simp
next
  case (Suc a)
  show ?case
  proof (cases "body i s")
    case None
    then show ?thesis by simp
  next
    case (Some s1)
    have "i + 1 + int a = i + int (Suc a)" by simp
    with Suc [of "i + 1" s1] Some show ?thesis by simp
  qed
qed

lemma majority_vote_step:
  assumes wf: "wf_nodes self" "wf_roots self" "wf_class_leaves self"
    and fs: "sint (n_features self) \<le> int (length fs)"
    and i: "0 \<le> i" "i < sint (n_trees self)"
    and len: "length cs = nat (sint (n_classes self))"
    and small: "sum_list cs < 2 ^ 24"
  shows "\<exists>c. c < length cs
           \<and> majority_vote self fs fl i (map vote_count cs @ rest)
               = Some (map vote_count (cs[c := Suc (cs ! c)]) @ rest)"
proof -
  from wf(2) i have rd: "array_read (tree_roots self) i = Some (tree_roots self ! nat i)"
    by (auto simp: wf_roots_def array_read_def)
  from i have "nat i \<in> {0 ..< nat (sint (n_trees self))}" by auto
  with wf(2) have root: "0 \<le> sint (tree_roots self ! nat i)"
    "sint (tree_roots self ! nat i) < sint (n_nodes self)"
    unfolding wf_roots_def by blast+
  from predict_tree_total [OF wf(1) fs root, of fl]
  obtain leaf where leaf: "eml_trees_predict_tree self (tree_roots self ! nat i) fs fl = Some leaf"
    "0 \<le> sint leaf" "sint leaf < sint (n_leaves self)" by blast
  from wf(3) leaf have lrd: "array_read (leaves self) (sint leaf) = Some (leaves self ! nat (sint leaf))"
    by (auto simp: wf_class_leaves_def array_read_def)
  let ?c = "unat (leaves self ! nat (sint leaf))"
  have cu: "uint (leaves self ! nat (sint leaf)) = int ?c" by simp
  from leaf have "nat (sint leaf) \<in> {0 ..< nat (sint (n_leaves self))}" by auto
  with wf(3) have "uint (leaves self ! nat (sint leaf)) < sint (n_classes self)"
    unfolding wf_class_leaves_def by blast
  then have "int ?c < sint (n_classes self)" by (simp only: cu)
  with len have c: "?c < length cs" by linarith
  have ord: "array_read (map vote_count cs @ rest) (uint (leaves self ! nat (sint leaf)))
               = Some (vote_count (cs ! ?c))"
    using c by (simp add: array_read_def nth_append cu del: of_nat_unat)
  have "cs ! ?c \<le> sum_list cs" using c by (rule nth_le_sum_list)
  with small have "cs ! ?c < 2 ^ 24" by simp
  from float_increment [OF this]
  have inc: "fp_convert binary32 (fp_add binary64 (fp_convert binary64 (vote_count (cs ! ?c)))
           (Finite False 1)) = vote_count (Suc (cs ! ?c))"
    by (simp only: vote_count_def)
  have wr: "array_write (map vote_count cs @ rest) (uint (leaves self ! nat (sint leaf)))
              (vote_count (Suc (cs ! ?c)))
            = Some (map vote_count (cs[?c := Suc (cs ! ?c)]) @ rest)"
    using c by (simp add: array_write_def list_update_append map_update cu del: of_nat_unat)
  have "majority_vote self fs fl i (map vote_count cs @ rest)
          = Some (map vote_count (cs[?c := Suc (cs ! ?c)]) @ rest)"
    by (simp add: majority_vote_def rd leaf(1) lrd ord Let_def inc wr)
  with c show ?thesis by blast
qed

lemma majority_loop_counts:
  assumes wf: "wf_nodes self" "wf_roots self" "wf_class_leaves self"
    and fs: "sint (n_features self) \<le> int (length fs)"
    and k: "int k \<le> sint (n_trees self)" "k \<le> 2 ^ 24"
  shows "\<exists>cs. length cs = nat (sint (n_classes self)) \<and> sum_list cs = k
           \<and> for_loop k 0 (majority_vote self fs fl)
                (map vote_count (replicate (nat (sint (n_classes self))) 0) @ rest)
               = Some (map vote_count cs @ rest)"
proof -
  let ?nc = "nat (sint (n_classes self))"
  let ?I = "\<lambda>i s. \<exists>cs. length cs = ?nc \<and> int (sum_list cs) = i \<and> s = map vote_count cs @ rest"
  have "\<exists>s'. for_loop k 0 (majority_vote self fs fl) (map vote_count (replicate ?nc 0) @ rest)
              = Some s' \<and> ?I (0 + int k) s'"
  proof (rule for_loop_rule [where I = ?I])
    show "?I 0 (map vote_count (replicate ?nc 0) @ rest)"
      by (intro exI [of _ "replicate ?nc 0"]) simp
  next
    fix i s
    assume i: "0 \<le> i" "i < 0 + int k" and inv: "?I i s"
    then obtain cs where cs: "length cs = ?nc" "int (sum_list cs) = i" "s = map vote_count cs @ rest"
      by blast
    from i k have it: "i < sint (n_trees self)" by simp
    from i cs(2) k(2) have small: "sum_list cs < 2 ^ 24" by linarith
    from majority_vote_step [OF wf fs i(1) it cs(1) small, of fl rest]
    obtain c where c: "c < length cs"
      "majority_vote self fs fl i (map vote_count cs @ rest)
         = Some (map vote_count (cs[c := Suc (cs ! c)]) @ rest)" by blast
    let ?cs' = "cs[c := Suc (cs ! c)]"
    have "int (sum_list ?cs') = i + 1"
      using sum_list_update_Suc [OF c(1)] cs(2) by simp
    moreover have "length ?cs' = ?nc" using cs(1) by simp
    ultimately have "?I (i + 1) (map vote_count ?cs' @ rest)" by blast
    with c(2) cs(3) show "\<exists>s'. majority_vote self fs fl i s = Some s' \<and> ?I (i + 1) s'"
      by blast
  qed
  then show ?thesis by auto
qed


lemma compute_mean_step:
  "i < length out \<Longrightarrow>
   (map f (take i out) @ drop i out)[i := f (out ! i)]
     = map f (take (Suc i) out) @ drop (Suc i) out"
  by (simp add: list_update_append take_Suc_conv_app_nth flip: Cons_nth_drop_Suc)

lemma compute_mean_result:
  assumes "n \<le> int (length out)"
  shows "compute_mean self n out
           = Some (map (\<lambda>v. fp_div binary32 v (fp_of_int binary32 (sint (n_trees self))))
                     (take (nat n) out) @ drop (nat n) out)"
proof -
  let ?f = "\<lambda>v. fp_div binary32 v (fp_of_int binary32 (sint (n_trees self)))"
  let ?body = "\<lambda>i out. array_read out i \<bind> (\<lambda>v. array_write out i (?f v))"
  let ?I = "\<lambda>i s. s = map ?f (take (nat i) out) @ drop (nat i) out"
  have "\<exists>s'. for_loop (nat n) 0 ?body out = Some s' \<and> ?I (0 + int (nat n)) s'"
  proof (rule for_loop_rule [where I = ?I])
    show "?I 0 out" by simp
  next
    fix i s
    assume i: "0 \<le> i" "i < 0 + int (nat n)" and s: "?I i s"
    from i assms have lt: "nat i < length out" by linarith
    have len: "length s = length out" using s lt by simp
    have nth: "s ! nat i = out ! nat i" using s lt by (simp add: nth_append)
    have rd: "array_read s i = Some (out ! nat i)"
      using i lt len nth by (simp add: array_read_def)
    have wr: "array_write s i (?f (out ! nat i)) = Some (s[nat i := ?f (out ! nat i)])"
      using i lt len by (simp add: array_write_def)
    have "s[nat i := ?f (out ! nat i)] = map ?f (take (nat (i + 1)) out) @ drop (nat (i + 1)) out"
      using compute_mean_step [OF lt, of ?f] s i by (simp add: nat_add_distrib)
    with rd wr show "\<exists>s'. ?body i s = Some s' \<and> ?I (i + 1) s'" by simp
  qed
  then show ?thesis by (auto simp: compute_mean_def)
qed

lemma sum_list_vote_count:
  "sum_list (map fval (map vote_count cs)) = of_nat (sum_list cs)"
  by (induction cs) (auto simp: vote_count_def)

lemma wf_nodes_saturating: "wf_nodes saturating_forest"
  by (simp add: wf_nodes_def wf_node_def wf_child_def saturating_forest_def)

lemma wf_roots_saturating: "wf_roots saturating_forest"
  by (simp add: wf_roots_def saturating_forest_def)

lemma wf_class_leaves_saturating: "wf_class_leaves saturating_forest"
  by (simp add: wf_class_leaves_def saturating_forest_def)

text \<open>
  The claim C6 as it is stated fails for a model of more than \<open>2^24\<close> trees: the scores are
  \<open>float\<close>s, and \<open>16777216 + 1\<close> is rounded back to \<open>16777216\<close>. In the forest of
  \<open>2^24 + 1\<close> trees that all vote for class 0, the accumulated score is \<open>16777216\<close>, one less
  than \<open>n_trees\<close>.
\<close>

theorem majority_votes_sum_counterexample:
  "sint (leaf_bits saturating_forest) = 0
   \<and> wf_nodes saturating_forest \<and> wf_roots saturating_forest
   \<and> wf_class_leaves saturating_forest
   \<and> sint (n_trees saturating_forest) = 16777217
   \<and> majority_votes saturating_forest [0] 1 [float_zero] = Some [Finite False 16777216]"
proof -
  let ?body = "majority_vote saturating_forest [0] 1"
  have fs: "sint (n_features saturating_forest) \<le> int (length [0 :: int16_t])"
    by (simp add: saturating_forest_def)
  have k: "int 16777216 \<le> sint (n_trees saturating_forest)" "(16777216 :: nat) \<le> 2 ^ 24"
    by (simp_all add: saturating_forest_def)
  have nc: "nat (sint (n_classes saturating_forest)) = 1"
    by (simp add: saturating_forest_def)
  from majority_loop_counts [OF wf_nodes_saturating wf_roots_saturating
      wf_class_leaves_saturating fs k, of 1 "[]"]
  obtain cs where cs: "length cs = 1" "sum_list cs = 16777216"
    "for_loop 16777216 0 ?body [vote_count 0] = Some (map vote_count cs)"
    by (auto simp: nc)
  from cs(1) obtain x where "cs = [x]" by (cases cs) auto
  with cs(2) have "cs = [16777216]" by simp
  with cs(3) have first: "for_loop 16777216 0 ?body [float_zero] = Some [vote_count 16777216]"
    by (simp add: vote_count_def float_zero_def)
  have rd: "array_read (tree_roots saturating_forest) 16777216 = Some 0"
    by (simp add: array_read_def saturating_forest_def)
  from predict_tree_total [OF wf_nodes_saturating fs, of 0 1]
  obtain leaf where leaf: "eml_trees_predict_tree saturating_forest 0 [0] 1 = Some leaf"
    "0 \<le> sint leaf" "sint leaf < sint (n_leaves saturating_forest)"
    by (auto simp: saturating_forest_def)
  from leaf(2,3) have "sint leaf = 0" by (simp add: saturating_forest_def)
  then have "leaf = 0" by (simp only: signed_eq_0_iff)
  with leaf(1) have tr: "eml_trees_predict_tree saturating_forest 0 [0] 1 = Some 0" by simp
  have lrd: "array_read (leaves saturating_forest) 0 = Some 0"
    by (simp add: array_read_def saturating_forest_def)
  have last: "?body 16777216 [vote_count 16777216] = Some [Finite False 16777216]"
    using float_saturates
    by (simp add: majority_vote_def rd tr lrd)
       (simp add: array_read_def array_write_def vote_count_def)
  have split: "(16777217 :: nat) = 16777216 + Suc 0" by simp
  have "for_loop 16777217 0 ?body [float_zero] = Some [Finite False 16777216]"
    by (simp only: split for_loop_add first) (simp add: last)
  then have "majority_votes saturating_forest [0] 1 [float_zero] = Some [Finite False 16777216]"
    by (simp add: majority_votes_def saturating_forest_def)
  moreover have "sint (leaf_bits saturating_forest) = 0"
    "sint (n_trees saturating_forest) = 16777217"
    by (simp_all add: saturating_forest_def)
  ultimately show ?thesis
    using wf_nodes_saturating wf_roots_saturating wf_class_leaves_saturating by simp
qed

text \<open>
  C6, amended. For every well-formed model with \<open>leaf_bits = 0\<close>, leaf bytes that are class
  indices below \<open>n_classes\<close>, and at most \<open>2^24\<close> trees, each tree adds exactly one to the
  score of one class: after the zero fill, the accumulated scores are the floats of natural
  numbers \<open>cs\<close> whose sum is \<open>n_trees\<close>, and the output of \<open>eml_trees_predict_proba\<close> is each
  of them divided by \<open>n_trees\<close> (the buffer beyond \<open>n_classes\<close> is unchanged).
\<close>

theorem majority_votes_sum:
  assumes bits: "sint (leaf_bits self) = 0"
    and wf: "wf_nodes self" "wf_roots self" "wf_class_leaves self"
    and fs: "sint (n_features self) \<le> int (length fs)"
    and ol: "sint out_length = sint (n_classes self)" "sint out_length \<le> int (length buf)"
    and small: "sint (n_trees self) \<le> 2 ^ 24"
  shows "\<exists>cs. length cs = nat (sint (n_classes self))
      \<and> sum_list cs = nat (sint (n_trees self))
      \<and> zero_fill buf (sint out_length)
          = Some (map vote_count (replicate (nat (sint (n_classes self))) 0)
                  @ drop (nat (sint (n_classes self))) buf)
      \<and> majority_votes self fs features_length
            (map vote_count (replicate (nat (sint (n_classes self))) 0)
             @ drop (nat (sint (n_classes self))) buf)
          = Some (map vote_count cs @ drop (nat (sint (n_classes self))) buf)
      \<and> sum_list (map fval (map vote_count cs)) = of_int (sint (n_trees self))
      \<and> eml_trees_predict_proba self (Some fs) features_length (Some buf) out_length
          = Some (EmlOk,
              Some (map (\<lambda>c. fp_div binary32 (vote_count c)
                                (fp_of_int binary32 (sint (n_trees self)))) cs
                    @ drop (nat (sint (n_classes self))) buf))"
proof -
  let ?nc = "nat (sint (n_classes self))"
  let ?nt = "nat (sint (n_trees self))"
  let ?rest = "drop ?nc buf"
  let ?zero = "map vote_count (replicate ?nc 0) @ ?rest"
  from wf(2) have nt: "0 \<le> sint (n_trees self)" by (simp add: wf_roots_def)
  have zf: "zero_fill buf (sint out_length) = Some ?zero"
    using zero_fill_result [OF ol(2)] ol(1)
    by (simp add: vote_count_def float_zero_def)
  have k: "int ?nt \<le> sint (n_trees self)" "?nt \<le> 2 ^ 24"
    using nt small by auto
  from majority_loop_counts [OF wf fs k, of features_length ?rest]
  obtain cs where cs: "length cs = ?nc" "sum_list cs = ?nt"
    "for_loop ?nt 0 (majority_vote self fs features_length) ?zero
       = Some (map vote_count cs @ ?rest)" by blast
  have mv: "majority_votes self fs features_length ?zero = Some (map vote_count cs @ ?rest)"
    using cs(3) by (simp add: majority_votes_def)
  have "sum_list (map fval (map vote_count cs)) = of_nat ?nt"
    by (simp only: sum_list_vote_count cs(2))
  also have "\<dots> = of_int (sint (n_trees self))"
    using nt by (rule of_nat_nat)
  finally have total: "sum_list (map fval (map vote_count cs)) = of_int (sint (n_trees self))" .
  have len: "sint out_length \<le> int (length (map vote_count cs @ ?rest))"
    using cs(1) ol by simp
  have cm: "compute_mean self (sint out_length) (map vote_count cs @ ?rest)
      = Some (map (\<lambda>c. fp_div binary32 (vote_count c)
                          (fp_of_int binary32 (sint (n_trees self)))) cs @ ?rest)"
    using compute_mean_result [OF len, of self] cs(1) ol(1) by (simp add: comp_def)
  have run: "predict_proba_run self fs features_length buf out_length
          = Some (EmlOk,
              map (\<lambda>c. fp_div binary32 (vote_count c)
                          (fp_of_int binary32 (sint (n_trees self)))) cs @ ?rest)"
    by (simp only: predict_proba_run_def zf mv cm bits Option.bind_lunit if_True simp_thms)
  have "eml_trees_predict_proba self (Some fs) features_length (Some buf) out_length
          = Some (EmlOk,
              Some (map (\<lambda>c. fp_div binary32 (vote_count c)
                                (fp_of_int binary32 (sint (n_trees self)))) cs @ ?rest))"
    using ol(1)
    by (simp add: eml_trees_predict_proba_def EML_PRECONDITION_def outputs_proba_eq run)
  with cs(1,2) zf mv total show ?thesis by blast
qed

theorem majority_votes_sum_witness:
  "sint (leaf_bits majority_forest) = 0
   \<and> wf_nodes majority_forest \<and> wf_roots majority_forest \<and> wf_class_leaves majority_forest
   \<and> sint (n_trees majority_forest) = 3
   \<and> majority_votes majority_forest [5] 1 [float_zero, float_zero]
       = Some [Finite False 1, Finite False 2]
   \<and> eml_trees_predict_proba majority_forest (Some [5]) 1 (Some [NaN, NaN]) 2
       = Some (EmlOk, Some [Finite False (11184811 / 33554432),
                            Finite False (11184811 / 16777216)])"
proof -
  have bits: "sint (leaf_bits majority_forest) = 0" by (simp add: majority_forest_def)
  have wn: "wf_nodes majority_forest" by code_simp
  have wr: "wf_roots majority_forest" by code_simp
  have wl: "wf_class_leaves majority_forest" by code_simp
  have fs: "sint (n_features majority_forest) \<le> int (length [5 :: int16_t])"
    by (simp add: majority_forest_def)
  have ol: "sint (2 :: int32_t) = sint (n_classes majority_forest)"
    "sint (2 :: int32_t) \<le> int (length [NaN, NaN])"
    by (simp_all add: majority_forest_def)
  have small: "sint (n_trees majority_forest) \<le> 2 ^ 24" by (simp add: majority_forest_def)
  have nt: "sint (n_trees majority_forest) = 3" by (simp add: majority_forest_def)
  have mv: "majority_votes majority_forest [5] 1 [float_zero, float_zero]
       = Some [Finite False 1, Finite False 2]" by code_simp
  have pp: "eml_trees_predict_proba majority_forest (Some [5]) 1 (Some [NaN, NaN]) 2
       = Some (EmlOk, Some [Finite False (11184811 / 33554432),
                            Finite False (11184811 / 16777216)])" by code_simp
  show ?thesis
    using majority_votes_sum [OF bits wn wr wl fs ol small, of 1] bits wn wr wl nt mv pp
    by - (intro conjI; assumption)
qed

subsection \<open>Soft vote\<close>

text \<open>
  C1. For the soft-vote model of one tree and two classes whose selected leaf holds the bytes
  200 and 55, \<open>eml_trees_predict_proba\<close> returns the scores 0 and 0, not 200/255 and 55/255:
  the quotient \<open>leaf_data[class_no] / 255\<close> of the source is an integer division, which is 0
  for every byte below 255. The float quotient of 200 by 255 would be \<open>13158601 / 2^24\<close>.
\<close>

theorem soft_vote_integer_division:
  "eml_trees_predict_proba soft_vote_forest (Some [5]) 1 (Some [NaN, NaN]) 2
     = Some (EmlOk, Some [Finite False 0, Finite False 0])
   \<and> fp_div binary32 (fp_of_int binary32 200) (fp_of_int binary32 255)
     = Finite False (13158601 / 16777216)"
  by code_simp

end
